theory Spec2Isabelle
  imports Main
begin

section \<open>Episode discovery and announcement: a model of \<^verbatim>\<open>module_find_episodes.py\<close>\<close>

text \<open>
  The module polls service handlers for the latest episode of each tracked show, removes the
  stream's numbering offset, asks the database whether the episode was announced already,
  and otherwise renders a post from templates, submits it and records the result.

  The module's own functions are translated one by one below, under their own names
  without the leading underscore. What the module imports but does not define is handled
  as follows.
  \<^item> The database object \<^verbatim>\<open>db\<close> is a record of tables with the query and update
    functions the specification lists for it.
  \<^item> Service handlers, link handlers and the \<^verbatim>\<open>reddit\<close> module are functions carried
    by the record \<open>Env\<close>; a call that can raise returns \<open>error + 'a\<close>.
  \<^item> \<^verbatim>\<open>str.format_map\<close> is the interpreter's; its scanner is modelled after CPython's
    \<^verbatim>\<open>MarkupIterator_next\<close> and \<^verbatim>\<open>parse_field\<close>.
  A string is a list of characters with code points below 256; integers are unbounded.
\<close>

subsection \<open>Exceptions and Python values\<close>

datatype error =
    KeyError string
  | ValueError
  | TypeError
  | AttributeError
  | Raised string

text \<open>
  \<open>KeyError k\<close>: a dictionary has no key \<open>k\<close>. \<open>ValueError\<close>: the format string is
  malformed or has a positional field. \<open>TypeError\<close>: a function is given two values for
  one parameter. \<open>AttributeError\<close>: an attribute of \<^verbatim>\<open>None\<close> is read. \<open>Raised m\<close>: an
  exception raised inside a collaborator.
\<close>

datatype pyval = PStr string | PInt int

definition bind_err :: "error + 'a \<Rightarrow> ('a \<Rightarrow> error + 'b) \<Rightarrow> error + 'b" where
  "bind_err m f = (case m of Inl e \<Rightarrow> Inl e | Inr x \<Rightarrow> f x)"

text \<open>\<^verbatim>\<open>d[k]\<close> on a dictionary: the entry, or \<^verbatim>\<open>KeyError\<close>.\<close>

definition getitem :: "(string \<rightharpoonup> 'a) \<Rightarrow> string \<Rightarrow> error + 'a" where
  "getitem d k = (case d k of None \<Rightarrow> Inl (KeyError k) | Some v \<Rightarrow> Inr v)"

text \<open>\<^verbatim>\<open>str(n)\<close> for an integer: decimal digits, with a minus sign when negative.\<close>

definition digit_char :: "nat \<Rightarrow> char" where
  "digit_char n = ''0123456789'' ! (n mod 10)"

fun nat_digits :: "nat \<Rightarrow> string" where
  "nat_digits n = (if n < 10 then [digit_char n] else nat_digits (n div 10) @ [digit_char n])"

declare nat_digits.simps [simp del]

definition str_int :: "int \<Rightarrow> string" where
  "str_int i = (if i < 0 then CHR ''-'' # nat_digits (nat (- i)) else nat_digits (nat i))"

definition py_str :: "pyval \<Rightarrow> string" where
  "py_str v = (case v of PStr s \<Rightarrow> s | PInt i \<Rightarrow> str_int i)"

text \<open>\<^verbatim>\<open>sub in s\<close> on strings: \<open>sub\<close> occurs in \<open>s\<close> as a contiguous block.\<close>

fun starts_with :: "string \<Rightarrow> string \<Rightarrow> bool" where
  "starts_with [] s = True"
| "starts_with (p # ps) [] = False"
| "starts_with (p # ps) (c # cs) = (p = c \<and> starts_with ps cs)"

fun contains :: "string \<Rightarrow> string \<Rightarrow> bool" where
  "contains sub [] = (sub = [])"
| "contains sub (c # cs) = (starts_with sub (c # cs) \<or> contains sub cs)"

text \<open>
  \<^verbatim>\<open>s.strip()\<close>: leading and trailing whitespace removed. The whitespace characters below
  256 are tab, line feed, vertical tab, form feed, carriage return, the four separators
  28 to 31, the space, the next-line character 133 and the no-break space 160.
\<close>

definition is_space :: "char \<Rightarrow> bool" where
  "is_space c =
     (let n = (of_char c :: nat) in
      (9 \<le> n \<and> n \<le> 13) \<or> (28 \<le> n \<and> n \<le> 32) \<or> n = 133 \<or> n = 160)"

definition strip :: "string \<Rightarrow> string" where
  "strip s = rev (dropWhile is_space (rev (dropWhile is_space s)))"

text \<open>\<^verbatim>\<open>sep.join(parts)\<close>.\<close>

fun join :: "string \<Rightarrow> string list \<Rightarrow> string" where
  "join sep [] = []"
| "join sep [x] = x"
| "join sep (x # y # ys) = x @ sep @ join sep (y # ys)"

subsection \<open>The template renderer: \<^verbatim>\<open>safe_format\<close>\<close>

text \<open>
  \<^verbatim>\<open>safe_format(s, **kwargs)\<close> is \<^verbatim>\<open>s.format_map(_SafeDict(**kwargs))\<close>, where
  \<^verbatim>\<open>_SafeDict.__missing__(key)\<close> returns \<^verbatim>\<open>"{" + key + "}"\<close>. The template is the
  parameter \<^verbatim>\<open>s\<close>, so a call that also passes a keyword \<^verbatim>\<open>s\<close> gives \<^verbatim>\<open>s\<close> two values
  and raises \<^verbatim>\<open>TypeError\<close> before anything is rendered.

  A replacement field is \<^verbatim>\<open>{field_name!conversion:format_spec}\<close>; the field name is an
  argument name followed by attribute and index accessors.
\<close>

datatype markup = Markup (field_name: string) (conversion: "char option") (format_spec: string)

text \<open>
  The field name runs to the first \<^verbatim>\<open>}\<close>, \<^verbatim>\<open>:\<close> or \<^verbatim>\<open>!\<close>; after a \<^verbatim>\<open>[\<close> the
  scanner skips to the next \<^verbatim>\<open>]\<close>; a \<^verbatim>\<open>{\<close> in the name, or the end of the string, is
  a \<^verbatim>\<open>ValueError\<close>. The result is the name, the terminating character and what follows it.
\<close>

function scan_field_name :: "string \<Rightarrow> error + (string \<times> char \<times> string)" where
  "scan_field_name [] = Inl ValueError"
| "scan_field_name (c # cs) =
     (if c = CHR ''{'' then Inl ValueError
      else if c = CHR ''['' then
        (case scan_field_name (dropWhile (\<lambda>x. x \<noteq> CHR '']'') cs) of
           Inl e \<Rightarrow> Inl e
         | Inr (n, t, r) \<Rightarrow> Inr (c # takeWhile (\<lambda>x. x \<noteq> CHR '']'') cs @ n, t, r))
      else if c = CHR ''}'' \<or> c = CHR '':'' \<or> c = CHR ''!'' then Inr ([], c, cs)
      else (case scan_field_name cs of
              Inl e \<Rightarrow> Inl e
            | Inr (n, t, r) \<Rightarrow> Inr (c # n, t, r)))"
  by pat_completeness auto
termination
  by (relation "measure length") (auto simp: less_Suc_eq_le length_dropWhile_le)

text \<open>
  The format spec runs to the \<^verbatim>\<open>}\<close> that closes the field; braces nest. The first
  argument is the number of braces opened inside the spec and not closed yet.
\<close>

fun scan_format_spec :: "nat \<Rightarrow> string \<Rightarrow> error + (string \<times> string)" where
  "scan_format_spec n [] = Inl ValueError"
| "scan_format_spec n (c # cs) =
     (if c = CHR ''}'' \<and> n = 0 then Inr ([], cs)
      else (case scan_format_spec (if c = CHR ''{'' then Suc n else if c = CHR ''}'' then n - 1 else n) cs of
              Inl e \<Rightarrow> Inl e
            | Inr (s, r) \<Rightarrow> Inr (c # s, r)))"

text \<open>\<^verbatim>\<open>parse_field\<close>: the text after an opening brace, up to and including its closing brace.\<close>

definition parse_field :: "string \<Rightarrow> error + (markup \<times> string)" where
  "parse_field s =
     (case scan_field_name s of
        Inl e \<Rightarrow> Inl e
      | Inr (n, t, r) \<Rightarrow>
          if t = CHR ''}'' then Inr (Markup n None [], r)
          else if t = CHR ''!'' then
            (case r of
               [] \<Rightarrow> Inl ValueError
             | cv # r1 \<Rightarrow>
                 (case r1 of
                    [] \<Rightarrow> Inl ValueError
                  | c2 # r2 \<Rightarrow>
                      if c2 = CHR ''}'' then Inr (Markup n (Some cv) [], r2)
                      else if c2 \<noteq> CHR '':'' then Inl ValueError
                      else (case scan_format_spec 0 r2 of
                              Inl e \<Rightarrow> Inl e
                            | Inr (sp, r3) \<Rightarrow> Inr (Markup n (Some cv) sp, r3))))
          else (case scan_format_spec 0 r of
                  Inl e \<Rightarrow> Inl e
                | Inr (sp, r3) \<Rightarrow> Inr (Markup n None sp, r3)))"

text \<open>
  \<^verbatim>\<open>MarkupIterator_next\<close> on a non-empty string: the literal text up to the next brace,
  the field that follows it (if any), and the rest of the string. A doubled brace is an
  escaped brace and belongs to the literal; a single \<^verbatim>\<open>}\<close>, or a \<^verbatim>\<open>{\<close> at the end of
  the string, is a \<^verbatim>\<open>ValueError\<close>.
\<close>

definition not_brace :: "char \<Rightarrow> bool" where
  "not_brace c = (c \<noteq> CHR ''{'' \<and> c \<noteq> CHR ''}'')"

definition markup_next :: "string \<Rightarrow> error + (string \<times> markup option \<times> string)" where
  "markup_next s =
     (let lit = takeWhile not_brace s in
      case dropWhile not_brace s of
        [] \<Rightarrow> Inr (lit, None, [])
      | c # r \<Rightarrow>
          (case r of
             [] \<Rightarrow> Inl ValueError
           | c2 # r2 \<Rightarrow>
               if c2 = c then Inr (lit @ [c], None, r2)
               else if c = CHR ''}'' then Inl ValueError
               else (case parse_field r of
                       Inl e \<Rightarrow> Inl e
                     | Inr (m, rest) \<Rightarrow> Inr (lit, Some m, rest))))"

text \<open>
  \<^verbatim>\<open>get_field_object\<close>: the argument name is the field name up to the first \<^verbatim>\<open>.\<close> or
  \<^verbatim>\<open>[\<close>. An empty name or a name of decimal digits is a positional field, which
  \<^verbatim>\<open>format_map\<close> refuses. Any other name is looked up in the mapping; \<^verbatim>\<open>_SafeDict\<close>
  answers a missing key with the key in braces.
\<close>

definition is_digit :: "char \<Rightarrow> bool" where
  "is_digit c = (let n = (of_char c :: nat) in 48 \<le> n \<and> n \<le> 57)"

definition not_accessor :: "char \<Rightarrow> bool" where
  "not_accessor c = (c \<noteq> CHR ''.'' \<and> c \<noteq> CHR ''['')"

definition arg_name :: "markup \<Rightarrow> string" where
  "arg_name m = takeWhile not_accessor (field_name m)"

definition accessors :: "markup \<Rightarrow> string" where
  "accessors m = dropWhile not_accessor (field_name m)"

definition is_positional :: "string \<Rightarrow> bool" where
  "is_positional n = (n = [] \<or> list_all is_digit n)"

definition safe_dict :: "(string \<rightharpoonup> pyval) \<Rightarrow> string \<Rightarrow> pyval" where
  "safe_dict kwargs k = (case kwargs k of Some v \<Rightarrow> v | None \<Rightarrow> PStr (CHR ''{'' # k @ ''}''))"

text \<open>
  A field with no accessor, no conversion and an empty format spec is rendered as
  \<^verbatim>\<open>str\<close> of its object. Accessors, conversions and format specs are the work of the
  interpreter's \<^verbatim>\<open>getattr\<close>, \<^verbatim>\<open>getitem\<close>, \<^verbatim>\<open>repr\<close> and \<^verbatim>\<open>format\<close>; they are the
  parameter \<open>ext\<close>, which receives the mapping (for fields nested in the spec) and the field.
\<close>

type_synonym extended_field = "(string \<Rightarrow> pyval) \<Rightarrow> markup \<Rightarrow> error + string"

definition output_markup :: "extended_field \<Rightarrow> (string \<rightharpoonup> pyval) \<Rightarrow> markup \<Rightarrow> error + string" where
  "output_markup ext kwargs m =
     (if is_positional (arg_name m) then Inl ValueError
      else if accessors m = [] \<and> conversion m = None \<and> format_spec m = []
        then Inr (py_str (safe_dict kwargs (arg_name m)))
      else ext (safe_dict kwargs) m)"

lemma scan_field_name_shorter:
  "scan_field_name s = Inr (n, t, r) \<Longrightarrow> length r < length s"
proof (induction s arbitrary: n t r rule: scan_field_name.induct)
  case 1
  then show ?case by simp
next
  case (2 c cs)
  have le: "length (dropWhile (\<lambda>x. x \<noteq> CHR '']'') cs) \<le> length cs"
    by (rule length_dropWhile_le)
  from 2 le show ?case
    by (auto split: if_splits sum.splits prod.splits simp: less_Suc_eq_le)
qed

lemma scan_format_spec_shorter:
  "scan_format_spec k s = Inr (sp, r) \<Longrightarrow> length r < length s"
  by (induction k s arbitrary: sp r rule: scan_format_spec.induct)
     (auto split: if_splits sum.splits prod.splits simp: less_Suc_eq)

lemma parse_field_shorter:
  "parse_field s = Inr (m, r) \<Longrightarrow> length r < length s"
  unfolding parse_field_def
  by (auto split: if_splits sum.splits prod.splits list.splits
           dest!: scan_field_name_shorter scan_format_spec_shorter)

lemma markup_next_shorter:
  assumes "markup_next s = Inr (lit, m, rest)" and "s \<noteq> []"
  shows "length rest < length s"
proof -
  have le: "length (dropWhile not_brace s) \<le> length s"
    by (rule length_dropWhile_le)
  from assms le show ?thesis
    unfolding markup_next_def Let_def
    by (auto split: if_splits sum.splits prod.splits list.splits dest!: parse_field_shorter)
qed

text \<open>
  \<^verbatim>\<open>build_string\<close>: the literals and rendered fields in order. The first exception ends
  the rendering.
\<close>

function build_string :: "extended_field \<Rightarrow> (string \<rightharpoonup> pyval) \<Rightarrow> string \<Rightarrow> error + string" where
  "build_string ext kwargs s =
     (if s = [] then Inr []
      else (case markup_next s of
              Inl e \<Rightarrow> Inl e
            | Inr (lit, mk, rest) \<Rightarrow>
                (case (case mk of None \<Rightarrow> Inr [] | Some m \<Rightarrow> output_markup ext kwargs m) of
                   Inl e \<Rightarrow> Inl e
                 | Inr out \<Rightarrow>
                     (case build_string ext kwargs rest of
                        Inl e \<Rightarrow> Inl e
                      | Inr more \<Rightarrow> Inr (lit @ out @ more)))))"
  by pat_completeness auto
termination
  by (relation "measure (\<lambda>(ext, kwargs, s). length s)") (auto dest: markup_next_shorter)

declare build_string.simps [simp del]

definition safe_format :: "extended_field \<Rightarrow> string \<Rightarrow> (string \<rightharpoonup> pyval) \<Rightarrow> error + string" where
  "safe_format ext s kwargs =
     (if kwargs ''s'' \<noteq> None then Inl TypeError else build_string ext kwargs s)"

subsection \<open>Data model\<close>

text \<open>
  The classes of \<^verbatim>\<open>data.models\<close>, with the attributes the module reads. A stream names
  its show and its service by their ids. An episode's name is optional.
\<close>

record Show =
  show_id :: int
  show_name :: string
  show_canonical_key :: string
  show_enabled :: bool
  show_delayed :: bool
  has_source :: bool

record Service =
  service_id :: int
  service_name :: string
  service_enabled :: bool
  use_in_post :: bool

record Stream =
  stream_service :: int
  stream_show :: int
  show_key :: string
  remote_offset :: int
  display_offset :: int
  active :: bool

record Episode =
  number :: int
  episode_name :: "string option"
  is_live :: bool

record Link =
  link_site :: int
  link_show :: int
  link_key :: string

record LinkSite =
  site_id :: int
  site_name :: string
  site_enabled :: bool

text \<open>A persisted episode record: the show, the canonical number and the post URL.\<close>

record EpisodeRecord =
  record_show :: int
  record_number :: int
  record_link :: string

subsection \<open>Persistence\<close>

record Db =
  db_services :: "Service list"
  db_streams :: "Stream list"
  db_shows :: "Show list"
  db_links :: "Link list"
  db_link_sites :: "LinkSite list"
  db_episodes :: "EpisodeRecord list"

text \<open>
  Modelled from the spec: the database module is not among the sources. The specification
  lists its capabilities as \<^verbatim>\<open>get_services(enabled?)\<close>, \<^verbatim>\<open>get_streams(service?|show?)\<close>,
  \<^verbatim>\<open>get_show(stream?)\<close>, \<^verbatim>\<open>get_shows(missing_stream?|delayed?)\<close>, \<^verbatim>\<open>get_service(id)\<close>,
  \<^verbatim>\<open>get_links(show)\<close>, \<^verbatim>\<open>get_link_site(id)\<close>, \<^verbatim>\<open>get_episodes(show)\<close>,
  \<^verbatim>\<open>stream_has_episode(stream, number) -> bool\<close>, \<^verbatim>\<open>add_episode(show, number, url)\<close> and
  \<^verbatim>\<open>set_show_delayed(show, bool)\<close>, and the persisted record as the (show, number, url)
  triple. Each query below is a filter over a table; each update changes one table.
\<close>

definition get_services_enabled :: "Db \<Rightarrow> Service list" where
  "get_services_enabled d = filter service_enabled (db_services d)"

definition get_streams_of_service :: "Db \<Rightarrow> Service \<Rightarrow> Stream list" where
  "get_streams_of_service d sv = filter (\<lambda>st. stream_service st = service_id sv) (db_streams d)"

definition get_streams_of_show :: "Db \<Rightarrow> Show \<Rightarrow> Stream list" where
  "get_streams_of_show d sh = filter (\<lambda>st. stream_show st = show_id sh) (db_streams d)"

definition get_show :: "Db \<Rightarrow> Stream \<Rightarrow> Show option" where
  "get_show d st = find (\<lambda>sh. show_id sh = stream_show st) (db_shows d)"

definition get_shows_missing_stream :: "Db \<Rightarrow> Show list" where
  "get_shows_missing_stream d =
     filter (\<lambda>sh. list_all (\<lambda>st. stream_show st \<noteq> show_id sh) (db_streams d)) (db_shows d)"

definition get_shows_delayed :: "Db \<Rightarrow> Show list" where
  "get_shows_delayed d = filter show_delayed (db_shows d)"

definition get_service :: "Db \<Rightarrow> int \<Rightarrow> Service option" where
  "get_service d i = find (\<lambda>sv. service_id sv = i) (db_services d)"

definition get_links :: "Db \<Rightarrow> Show \<Rightarrow> Link list" where
  "get_links d sh = filter (\<lambda>l. link_show l = show_id sh) (db_links d)"

definition get_link_site :: "Db \<Rightarrow> int \<Rightarrow> LinkSite option" where
  "get_link_site d i = find (\<lambda>s. site_id s = i) (db_link_sites d)"

definition get_episodes :: "Db \<Rightarrow> Show \<Rightarrow> EpisodeRecord list" where
  "get_episodes d sh = filter (\<lambda>r. record_show r = show_id sh) (db_episodes d)"

definition stream_has_episode :: "Db \<Rightarrow> Stream \<Rightarrow> int \<Rightarrow> bool" where
  "stream_has_episode d st n =
     list_ex (\<lambda>r. record_show r = stream_show st \<and> record_number r = n) (db_episodes d)"

definition add_episode :: "Db \<Rightarrow> int \<Rightarrow> int \<Rightarrow> string \<Rightarrow> Db" where
  "add_episode d sh n url =
     d\<lparr>db_episodes := db_episodes d @ [\<lparr>record_show = sh, record_number = n, record_link = url\<rparr>]\<rparr>"

definition set_show_delayed :: "Db \<Rightarrow> Show \<Rightarrow> bool \<Rightarrow> Db" where
  "set_show_delayed d sh b =
     d\<lparr>db_shows := map (\<lambda>s. if show_id s = show_id sh then s\<lparr>show_delayed := b\<rparr> else s) (db_shows d)\<rparr>"

text \<open>
  Modelled from the spec: \<^verbatim>\<open>Stream.from_show\<close> is defined in \<^verbatim>\<open>data.models\<close>, which is
  not among the sources. The specification: a stream synthesized from a show alone, with
  offsets 0 and the show's canonical key as its key. The specification says nothing of
  the other fields; the stream is given the show's id, no service (id \<open>-1\<close>) and the
  active flag.
\<close>

definition from_show :: "Show \<Rightarrow> Stream" where
  "from_show sh =
     \<lparr>stream_service = - 1, stream_show = show_id sh, show_key = show_canonical_key sh,
      remote_offset = 0, display_offset = 0, active = True\<rparr>"

subsection \<open>Configuration and collaborators\<close>

record Config =
  useragent :: string
  debug :: bool
  subreddit :: string
  post_title :: string
  post_body :: string
  post_formats :: "string \<rightharpoonup> string"

text \<open>
  A service handler (\<^verbatim>\<open>services.get_service_handler(service)\<close>): its
  \<^verbatim>\<open>get_latest_episode(stream, useragent=...)\<close> returns an episode or \<^verbatim>\<open>None\<close>, or raises.
\<close>

record ServiceHandler =
  handler_name :: string
  is_generic :: bool
  get_latest_episode :: "Stream \<Rightarrow> string \<Rightarrow> error + Episode option"
  get_stream_link :: "Stream \<Rightarrow> string"

record LinkHandler =
  get_link :: "Link \<Rightarrow> string"

text \<open>
  \<open>submit_text_post\<close> answers with the new post's id, with \<^verbatim>\<open>None\<close>, or raises.
  \<open>set_iteration\<close> is the order in which the interpreter iterates the set built from a
  list of shows; the language does not fix it.
\<close>

record Env =
  get_service_handler :: "Service \<Rightarrow> ServiceHandler"
  get_link_handler :: "LinkSite \<Rightarrow> LinkHandler"
  init_reddit :: "Config \<Rightarrow> error option"
  submit_text_post :: "string \<Rightarrow> string \<Rightarrow> string \<Rightarrow> error + string option"
  get_shortlink_from_id :: "string \<Rightarrow> string"
  format_field :: extended_field
  set_iteration :: "Show list \<Rightarrow> Show list"

text \<open>
  The calls that reach a collaborator and either change something or decide what is
  changed, in the order they are made.
\<close>

datatype call =
    InitReddit
  | GetLatestEpisode Service Stream
  | StreamHasEpisode Stream int
  | SubmitTextPost string string string
  | AddEpisode int int string
  | SetShowDelayed Show bool

record World =
  db :: Db
  calls :: "call list"

definition log_call :: "call \<Rightarrow> World \<Rightarrow> World" where
  "log_call c w = w\<lparr>calls := calls w @ [c]\<rparr>"

subsection \<open>Content blocks\<close>

lemma bind_err_cong [fundef_cong]:
  "m = m' \<Longrightarrow> (\<And>x. m' = Inr x \<Longrightarrow> f x = f' x) \<Longrightarrow> bind_err m f = bind_err m' f'"
  by (auto simp: bind_err_def split: sum.splits)

definition newline :: string where
  "newline = [CHR 0x0A]"

definition gen_text_spoiler :: "(string \<rightharpoonup> string) \<Rightarrow> Show \<Rightarrow> error + string" where
  "gen_text_spoiler formats sh = (if has_source sh then getitem formats ''spoiler'' else Inr [])"

text \<open>
  The loop of \<^verbatim>\<open>_gen_text_streams\<close>: one rendered line for each stream that is active
  and whose service is enabled and used in posts. \<^verbatim>\<open>db.get_service\<close> answering
  \<^verbatim>\<open>None\<close> makes \<^verbatim>\<open>service.enabled\<close> raise.
\<close>

fun stream_texts :: "Env \<Rightarrow> Db \<Rightarrow> (string \<rightharpoonup> string) \<Rightarrow> Stream list \<Rightarrow> error + string list" where
  "stream_texts env d formats [] = Inr []"
| "stream_texts env d formats (st # rest) =
     (if active st then
        (case get_service d (stream_service st) of
           None \<Rightarrow> Inl AttributeError
         | Some sv \<Rightarrow>
             if service_enabled sv \<and> use_in_post sv then
               bind_err (getitem formats ''stream'') (\<lambda>fmt.
               bind_err (safe_format (format_field env) fmt
                           [''service_name'' \<mapsto> PStr (service_name sv),
                            ''stream_link'' \<mapsto> PStr (get_stream_link (get_service_handler env sv) st)]) (\<lambda>txt.
               bind_err (stream_texts env d formats rest) (\<lambda>more. Inr (txt # more))))
             else stream_texts env d formats rest)
      else stream_texts env d formats rest)"

definition gen_text_streams :: "Env \<Rightarrow> Db \<Rightarrow> (string \<rightharpoonup> string) \<Rightarrow> Show \<Rightarrow> error + string" where
  "gen_text_streams env d formats sh =
     (let streams = get_streams_of_show d sh in
      if length streams > 0 then
        bind_err (stream_texts env d formats streams) (\<lambda>ts. Inr (join newline ts))
      else Inr ''*None*'')"

fun link_texts :: "Env \<Rightarrow> Db \<Rightarrow> (string \<rightharpoonup> string) \<Rightarrow> Link list \<Rightarrow> error + string list" where
  "link_texts env d formats [] = Inr []"
| "link_texts env d formats (l # rest) =
     (case get_link_site d (link_site l) of
        None \<Rightarrow> Inl AttributeError
      | Some site \<Rightarrow>
          if site_enabled site then
            bind_err (getitem formats ''link'') (\<lambda>fmt.
            bind_err (safe_format (format_field env) fmt
                        [''site_name'' \<mapsto> PStr (site_name site),
                         ''link'' \<mapsto> PStr (get_link (get_link_handler env site) l)]) (\<lambda>txt.
            bind_err (link_texts env d formats rest) (\<lambda>more. Inr (txt # more))))
          else link_texts env d formats rest)"

definition gen_text_links :: "Env \<Rightarrow> Db \<Rightarrow> (string \<rightharpoonup> string) \<Rightarrow> Show \<Rightarrow> error + string" where
  "gen_text_links env d formats sh =
     bind_err (link_texts env d formats (get_links d sh)) (\<lambda>ts. Inr (join newline ts))"

fun discussion_rows :: "Env \<Rightarrow> (string \<rightharpoonup> string) \<Rightarrow> EpisodeRecord list \<Rightarrow> error + string list" where
  "discussion_rows env formats [] = Inr []"
| "discussion_rows env formats (r # rest) =
     bind_err (getitem formats ''discussion'') (\<lambda>fmt.
     bind_err (safe_format (format_field env) fmt
                 [''episode_num'' \<mapsto> PInt (record_number r),
                  ''episode_link'' \<mapsto> PStr (record_link r)]) (\<lambda>txt.
     bind_err (discussion_rows env formats rest) (\<lambda>more. Inr (txt # more))))"

definition gen_text_discussions :: "Env \<Rightarrow> Db \<Rightarrow> (string \<rightharpoonup> string) \<Rightarrow> Show \<Rightarrow> error + string" where
  "gen_text_discussions env d formats sh =
     (let episodes = get_episodes d sh in
      if length episodes > 0 then
        bind_err (getitem formats ''discussion_header'') (\<lambda>header.
        bind_err (discussion_rows env formats episodes) (\<lambda>rows. Inr (join newline (header # rows))))
      else getitem formats ''discussion_none'')"

subsection \<open>The post composer\<close>

text \<open>
  \<^verbatim>\<open>_format_post_text\<close>. Its four statements of the form
  \<^verbatim>\<open>if "{key}" in text: text = safe_format(text, key=block)\<close> are \<open>format_block\<close>: a
  block is computed only when its placeholder occurs in the text at that point. The
  episode's name counts as absent when it is \<^verbatim>\<open>None\<close> or empty.
\<close>

definition episode_name_text :: "Episode \<Rightarrow> string" where
  "episode_name_text ep =
     (case episode_name ep of None \<Rightarrow> [] | Some n \<Rightarrow> if n = [] then [] else '': '' @ n)"

definition format_block ::
  "Env \<Rightarrow> string \<Rightarrow> string \<Rightarrow> error + string \<Rightarrow> error + string" where
  "format_block env key txt block =
     (if contains (CHR ''{'' # key @ ''}'') txt then
        bind_err block (\<lambda>b. safe_format (format_field env) txt [key \<mapsto> PStr b])
      else Inr txt)"

definition format_post_text ::
  "Env \<Rightarrow> Db \<Rightarrow> string \<Rightarrow> (string \<rightharpoonup> string) \<Rightarrow> Show \<Rightarrow> Episode \<Rightarrow> Stream \<Rightarrow> error + string" where
  "format_post_text env d txt formats sh ep st =
     (let episode_num = number ep + display_offset st in
      bind_err (format_block env ''spoiler'' txt (gen_text_spoiler formats sh)) (\<lambda>t1.
      bind_err (format_block env ''streams'' t1 (gen_text_streams env d formats sh)) (\<lambda>t2.
      bind_err (format_block env ''links'' t2 (gen_text_links env d formats sh)) (\<lambda>t3.
      bind_err (format_block env ''discussions'' t3 (gen_text_discussions env d formats sh)) (\<lambda>t4.
      bind_err (safe_format (format_field env) t4
                  [''show_name'' \<mapsto> PStr (show_name sh),
                   ''episode'' \<mapsto> PInt episode_num,
                   ''episode_name'' \<mapsto> PStr (episode_name_text ep)]) (\<lambda>t5.
      Inr (strip t5)))))))"

definition create_post_contents ::
  "Config \<Rightarrow> Env \<Rightarrow> Db \<Rightarrow> Show \<Rightarrow> Stream \<Rightarrow> Episode \<Rightarrow> error + (string \<times> string)" where
  "create_post_contents cfg env d sh st ep =
     bind_err (format_post_text env d (post_title cfg) (post_formats cfg) sh ep st) (\<lambda>title.
     bind_err (format_post_text env d (post_body cfg) (post_formats cfg) sh ep st) (\<lambda>body.
     Inr (title, body)))"

text \<open>
  \<^verbatim>\<open>_create_reddit_post\<close>: the post's short link, or \<^verbatim>\<open>None\<close> when nothing is
  submitted or the submission returns no post.
\<close>

definition create_reddit_post ::
  "Config \<Rightarrow> Env \<Rightarrow> Show \<Rightarrow> Stream \<Rightarrow> Episode \<Rightarrow> bool \<Rightarrow> World \<Rightarrow> (error + string option) \<times> World" where
  "create_reddit_post cfg env sh st ep submit w =
     (case create_post_contents cfg env (db w) sh st ep of
        Inl e \<Rightarrow> (Inl e, w)
      | Inr (title, body) \<Rightarrow>
          if submit then
            (let w1 = log_call (SubmitTextPost (subreddit cfg) title body) w in
             case submit_text_post env (subreddit cfg) title body of
               Inl e \<Rightarrow> (Inl e, w1)
             | Inr None \<Rightarrow> (Inr None, w1)
             | Inr (Some post_id) \<Rightarrow> (Inr (Some (get_shortlink_from_id env post_id)), w1))
          else (Inr None, w))"

subsection \<open>The episode processor\<close>

text \<open>
  \<^verbatim>\<open>_process_new_episode\<close>. The assignment to \<^verbatim>\<open>episode.number\<close> changes the caller's
  object, so the episode is returned with the exception (if any) and the world.
\<close>

definition process_new_episode ::
  "Config \<Rightarrow> Env \<Rightarrow> Show \<Rightarrow> Stream \<Rightarrow> Episode \<Rightarrow> World \<Rightarrow> error option \<times> Episode \<times> World" where
  "process_new_episode cfg env sh st ep w =
     (if is_live ep then
        (let ep1 = ep\<lparr>number := number ep - remote_offset st\<rparr>;
             w1 = log_call (StreamHasEpisode st (number ep1)) w;
             already_seen = stream_has_episode (db w) st (number ep1) in
         if \<not> already_seen then
           (case create_reddit_post cfg env sh st ep1 (\<not> debug cfg) w1 of
              (Inl e, w2) \<Rightarrow> (Some e, ep1, w2)
            | (Inr None, w2) \<Rightarrow> (None, ep1, w2)
            | (Inr (Some post_url), w2) \<Rightarrow>
                (let w3 = log_call (AddEpisode (stream_show st) (number ep1) post_url)
                            (w2\<lparr>db := add_episode (db w2) (stream_show st) (number ep1) post_url\<rparr>) in
                 if show_delayed sh then
                   (None, ep1,
                    log_call (SetShowDelayed sh False) (w3\<lparr>db := set_show_delayed (db w3) sh False\<rparr>))
                 else (None, ep1, w3)))
         else (None, ep1, w1))
      else (None, ep, w))"

subsection \<open>The discovery driver\<close>

text \<open>The loop over the streams of one service.\<close>

fun check_streams ::
  "Config \<Rightarrow> Env \<Rightarrow> Service \<Rightarrow> Stream list \<Rightarrow> World \<Rightarrow> error option \<times> World" where
  "check_streams cfg env sv [] w = (None, w)"
| "check_streams cfg env sv (st # rest) w =
     (case get_show (db w) st of
        None \<Rightarrow> check_streams cfg env sv rest w
      | Some sh \<Rightarrow>
          if \<not> show_enabled sh then check_streams cfg env sv rest w
          else
            (let w1 = log_call (GetLatestEpisode sv st) w in
             case get_latest_episode (get_service_handler env sv) st (useragent cfg) of
               Inl e \<Rightarrow> (Some e, w1)
             | Inr None \<Rightarrow> check_streams cfg env sv rest w1
             | Inr (Some ep) \<Rightarrow>
                 (case process_new_episode cfg env sh st ep w1 of
                    (Some e, ep1, w2) \<Rightarrow> (Some e, w2)
                  | (None, ep1, w2) \<Rightarrow> check_streams cfg env sv rest w2)))"

text \<open>The loop over the enabled services.\<close>

fun check_services ::
  "Config \<Rightarrow> Env \<Rightarrow> Service list \<Rightarrow> World \<Rightarrow> error option \<times> World" where
  "check_services cfg env [] w = (None, w)"
| "check_services cfg env (sv # rest) w =
     (case check_streams cfg env sv (get_streams_of_service (db w) sv) w of
        (Some e, w1) \<Rightarrow> (Some e, w1)
      | (None, w1) \<Rightarrow> check_services cfg env rest w1)"

text \<open>
  The loop over the enabled services for one show of the generic pass: it ends at the
  first generic handler that returns an episode.
\<close>

fun check_generic ::
  "Config \<Rightarrow> Env \<Rightarrow> Show \<Rightarrow> Stream \<Rightarrow> Service list \<Rightarrow> World \<Rightarrow> error option \<times> World" where
  "check_generic cfg env sh st [] w = (None, w)"
| "check_generic cfg env sh st (sv # rest) w =
     (if is_generic (get_service_handler env sv) then
        (let w1 = log_call (GetLatestEpisode sv st) w in
         case get_latest_episode (get_service_handler env sv) st (useragent cfg) of
           Inl e \<Rightarrow> (Some e, w1)
         | Inr None \<Rightarrow> check_generic cfg env sh st rest w1
         | Inr (Some ep) \<Rightarrow>
             (case process_new_episode cfg env sh st ep w1 of
                (err, ep1, w2) \<Rightarrow> (err, w2)))
      else check_generic cfg env sh st rest w)"

text \<open>The loop over the shows of the generic pass.\<close>

fun check_shows ::
  "Config \<Rightarrow> Env \<Rightarrow> Service list \<Rightarrow> Show list \<Rightarrow> World \<Rightarrow> error option \<times> World" where
  "check_shows cfg env svs [] w = (None, w)"
| "check_shows cfg env svs (sh # rest) w =
     (case check_generic cfg env sh (from_show sh) svs w of
        (Some e, w1) \<Rightarrow> (Some e, w1)
      | (None, w1) \<Rightarrow> check_shows cfg env svs rest w1)"

definition other_shows :: "Env \<Rightarrow> Db \<Rightarrow> Show list" where
  "other_shows env d = set_iteration env (get_shows_missing_stream d @ get_shows_delayed d)"

definition main :: "Config \<Rightarrow> Env \<Rightarrow> World \<Rightarrow> error option \<times> World" where
  "main cfg env w =
     (let w0 = log_call InitReddit w in
      case init_reddit env cfg of
        Some e \<Rightarrow> (Some e, w0)
      | None \<Rightarrow>
          (let enabled_services = get_services_enabled (db w0) in
           case check_services cfg env enabled_services w0 of
             (Some e, w1) \<Rightarrow> (Some e, w1)
           | (None, w1) \<Rightarrow> check_shows cfg env enabled_services (other_shows env (db w1)) w1))"

subsection \<open>Templates made of text and plain placeholders\<close>

text \<open>
  A template in the sense of the specification: literal text without braces, and
  placeholders \<^verbatim>\<open>{name}\<close>. \<open>piece_source\<close> is how a piece is written in the template,
  \<open>piece_output\<close> what the specification asks of the renderer: the value of a name in the
  mapping, and the placeholder itself for a name that is not in it. A name is plain when it
  is not empty, does not consist of digits only and has none of the characters
  \<^verbatim>\<open>{ } [ . : !\<close>.
\<close>

datatype piece = Text string | Placeholder string

fun piece_source :: "piece \<Rightarrow> string" where
  "piece_source (Text s) = s"
| "piece_source (Placeholder n) = CHR ''{'' # n @ ''}''"

fun piece_output :: "(string \<rightharpoonup> pyval) \<Rightarrow> piece \<Rightarrow> string" where
  "piece_output kwargs (Text s) = s"
| "piece_output kwargs (Placeholder n) =
     (case kwargs n of Some v \<Rightarrow> py_str v | None \<Rightarrow> CHR ''{'' # n @ ''}'')"

definition plain_char :: "char \<Rightarrow> bool" where
  "plain_char c = (c \<notin> set ''{}[.:!'')"

definition simple_name :: "string \<Rightarrow> bool" where
  "simple_name n = (n \<noteq> [] \<and> \<not> list_all is_digit n \<and> list_all plain_char n)"

fun simple_piece :: "piece \<Rightarrow> bool" where
  "simple_piece (Text s) = list_all not_brace s"
| "simple_piece (Placeholder n) = simple_name n"

text \<open>
  A template has no block placeholder when none of the four tests of \<^verbatim>\<open>_format_post_text\<close>
  finds its placeholder in it. \<open>post_values\<close> are the three values the composer always
  supplies.
\<close>

definition no_block_placeholder :: "string \<Rightarrow> bool" where
  "no_block_placeholder s =
     (\<not> contains ''{spoiler}'' s \<and> \<not> contains ''{streams}'' s \<and>
      \<not> contains ''{links}'' s \<and> \<not> contains ''{discussions}'' s)"

definition post_values :: "Show \<Rightarrow> Episode \<Rightarrow> Stream \<Rightarrow> (string \<rightharpoonup> pyval)" where
  "post_values sh ep st =
     [''show_name'' \<mapsto> PStr (show_name sh),
      ''episode'' \<mapsto> PInt (number ep + display_offset st),
      ''episode_name'' \<mapsto> PStr (episode_name_text ep)]"

subsection \<open>Observing a run\<close>

text \<open>
  The calls a run added to the log, and the kinds of call the properties speak of.
\<close>

definition new_calls :: "World \<Rightarrow> World \<Rightarrow> call list" where
  "new_calls w w' = drop (length (calls w)) (calls w')"

fun is_add_episode :: "call \<Rightarrow> bool" where
  "is_add_episode (AddEpisode s n u) = True"
| "is_add_episode c = False"

fun is_db_write :: "call \<Rightarrow> bool" where
  "is_db_write (AddEpisode s n u) = True"
| "is_db_write (SetShowDelayed s b) = True"
| "is_db_write c = False"

fun is_submit :: "call \<Rightarrow> bool" where
  "is_submit (SubmitTextPost s t b) = True"
| "is_submit c = False"

text \<open>
  What a call shows of the episode it is about: the number a database call carries, the
  title a submission carries. \<open>sees_canonical\<close> holds of a call when the call was made with
  the given candidate: the query and the update carry its number and the stream, the
  submission carries the title and body composed from it.
\<close>

fun call_number :: "call \<Rightarrow> int option" where
  "call_number (StreamHasEpisode s n) = Some n"
| "call_number (AddEpisode s n u) = Some n"
| "call_number c = None"

fun call_title :: "call \<Rightarrow> string option" where
  "call_title (SubmitTextPost sub title body) = Some title"
| "call_title c = None"

fun sees_canonical :: "Config \<Rightarrow> Env \<Rightarrow> Db \<Rightarrow> Show \<Rightarrow> Stream \<Rightarrow> Episode \<Rightarrow> call \<Rightarrow> bool" where
  "sees_canonical cfg env d sh st ep1 (StreamHasEpisode s n) = (s = st \<and> n = number ep1)"
| "sees_canonical cfg env d sh st ep1 (SubmitTextPost sub title body) =
     (create_post_contents cfg env d sh st ep1 = Inr (title, body))"
| "sees_canonical cfg env d sh st ep1 (AddEpisode s n u) = (s = stream_show st \<and> n = number ep1)"
| "sees_canonical cfg env d sh st ep1 c = True"

text \<open>
  The generic pass, in the words of the specification: the handlers that are generic, in
  the order of the enabled services; what a handler answers for a stream; the log after a
  row of handlers has been asked.
\<close>

definition probe :: "Config \<Rightarrow> Env \<Rightarrow> Stream \<Rightarrow> Service \<Rightarrow> error + Episode option" where
  "probe cfg env st sv = get_latest_episode (get_service_handler env sv) st (useragent cfg)"

definition generic_services :: "Env \<Rightarrow> Service list \<Rightarrow> Service list" where
  "generic_services env svs = filter (\<lambda>sv. is_generic (get_service_handler env sv)) svs"

definition log_probes :: "Stream \<Rightarrow> Service list \<Rightarrow> World \<Rightarrow> World" where
  "log_probes st svs w = w\<lparr>calls := calls w @ map (\<lambda>sv. GetLatestEpisode sv st) svs\<rparr>"

text \<open>
  A show's generic pass is complete in a log when every generic handler was asked, or a
  generic handler that was asked returned an episode.
\<close>

definition found_episode :: "error + Episode option \<Rightarrow> bool" where
  "found_episode r = (case r of Inr (Some ep) \<Rightarrow> True | _ \<Rightarrow> False)"

definition generic_probed :: "Config \<Rightarrow> Env \<Rightarrow> Stream \<Rightarrow> Service list \<Rightarrow> call list \<Rightarrow> bool" where
  "generic_probed cfg env st svs cs =
     (list_all (\<lambda>sv. GetLatestEpisode sv st \<in> set cs) (generic_services env svs) \<or>
      list_ex (\<lambda>sv. GetLatestEpisode sv st \<in> set cs \<and> found_episode (probe cfg env st sv))
        (generic_services env svs))"

text \<open>
  A stream is checked by the dedicated pass when its show exists and is enabled. Two
  databases have the same catalog when they agree on services, streams and the ids and
  enabled flags of the shows; a world extends another when the catalog is the same and no
  call has left the log.
\<close>

definition same_catalog :: "Db \<Rightarrow> Db \<Rightarrow> bool" where
  "same_catalog d d' =
     (db_services d' = db_services d \<and> db_streams d' = db_streams d \<and>
      map (\<lambda>s. (show_id s, show_enabled s)) (db_shows d') =
        map (\<lambda>s. (show_id s, show_enabled s)) (db_shows d))"

definition checkable :: "Db \<Rightarrow> Stream \<Rightarrow> bool" where
  "checkable d st = (case get_show d st of None \<Rightarrow> False | Some sh \<Rightarrow> show_enabled sh)"

definition extends :: "World \<Rightarrow> World \<Rightarrow> bool" where
  "extends w w' = (same_catalog (db w) (db w') \<and> set (calls w) \<subseteq> set (calls w'))"

subsection \<open>An example installation\<close>

text \<open>
  One show with one stream on one service, an episode numbered 7 by the service, a remote
  offset of 2 and a display offset of 1. A handler finds no episode for the key
  \<^verbatim>\<open>none\<close> and raises for the key \<^verbatim>\<open>down\<close>; the handlers of the services with an id
  of 2 or more are generic, and that of service 2 never finds an episode; the subreddit
  \<^verbatim>\<open>closed\<close> accepts no post. No example template has a field with an accessor, a
  conversion or a format spec.
\<close>

definition example_formats :: "string \<rightharpoonup> string" where
  "example_formats = [''stream'' \<mapsto> ''{service_name}: {stream_link}'']"

definition example_config :: Config where
  "example_config =
     \<lparr>useragent = ''holo'', debug = False, subreddit = ''anime'',
      post_title = ''{show_name} - Episode {episode}{episode_name}'',
      post_body = ''{streams}'', post_formats = example_formats\<rparr>"

definition example_episode :: Episode where
  "example_episode = \<lparr>number = 7, episode_name = Some ''Pilot'', is_live = True\<rparr>"

definition example_handler :: "Service \<Rightarrow> ServiceHandler" where
  "example_handler sv =
     \<lparr>handler_name = service_name sv, is_generic = (2 \<le> service_id sv),
      get_latest_episode = (\<lambda>st ua.
        if show_key st = ''down'' then Inl (Raised ''timeout'')
        else if show_key st = ''none'' \<or> service_id sv = 2 then Inr None
        else Inr (Some example_episode)),
      get_stream_link = (\<lambda>st. ''L'')\<rparr>"

definition example_env :: Env where
  "example_env =
     \<lparr>get_service_handler = example_handler,
      get_link_handler = (\<lambda>site. \<lparr>get_link = link_key\<rparr>),
      init_reddit = (\<lambda>cfg. None),
      submit_text_post = (\<lambda>sub title body. if sub = ''closed'' then Inr None else Inr (Some ''abc'')),
      get_shortlink_from_id = (\<lambda>i. ''http://redd.it/'' @ i),
      format_field = (\<lambda>lookup m. Inl ValueError),
      set_iteration = remdups\<rparr>"

definition example_show :: Show where
  "example_show =
     \<lparr>show_id = 1, show_name = ''Show'', show_canonical_key = ''show'', show_enabled = True,
      show_delayed = True, has_source = False\<rparr>"

definition example_service :: Service where
  "example_service = \<lparr>service_id = 1, service_name = ''S'', service_enabled = True, use_in_post = True\<rparr>"

definition example_stream :: Stream where
  "example_stream =
     \<lparr>stream_service = 1, stream_show = 1, show_key = ''key'', remote_offset = 2,
      display_offset = 1, active = True\<rparr>"

definition example_db :: Db where
  "example_db =
     \<lparr>db_services = [example_service], db_streams = [example_stream], db_shows = [example_show],
      db_links = [], db_link_sites = [], db_episodes = []\<rparr>"

definition example_world :: World where
  "example_world = \<lparr>db = example_db, calls = []\<rparr>"

text \<open>The example configuration with a subreddit that accepts no post.\<close>

definition example_closed :: Config where
  "example_closed = example_config\<lparr>subreddit := ''closed''\<rparr>"

text \<open>The example configuration with a title that is the episode number alone.\<close>

definition example_numbered :: Config where
  "example_numbered = example_config\<lparr>post_title := ''{episode}''\<rparr>"

text \<open>The example database with the show's only stream inactive.\<close>

definition example_inactive_db :: Db where
  "example_inactive_db = example_db\<lparr>db_streams := [example_stream\<lparr>active := False\<rparr>]\<rparr>"

text \<open>A further service of the example; its handler is generic when the id is 2 or more.\<close>

definition example_generic :: "int \<Rightarrow> Service" where
  "example_generic i = \<lparr>service_id = i, service_name = ''G'', service_enabled = True, use_in_post = False\<rparr>"

text \<open>
  Two example worlds with two streams of the show: in the first the handler raises for
  the first stream, in the second it finds nothing for the first stream and there are two
  generic services.
\<close>

definition example_down_world :: World where
  "example_down_world =
     \<lparr>db = example_db\<lparr>db_streams := [example_stream\<lparr>show_key := ''down''\<rparr>, example_stream]\<rparr>,
      calls = []\<rparr>"

definition example_busy_world :: World where
  "example_busy_world =
     \<lparr>db = example_db
        \<lparr>db_services := [example_service, example_generic 2, example_generic 3],
         db_streams := [example_stream\<lparr>show_key := ''none''\<rparr>, example_stream]\<rparr>,
      calls = []\<rparr>"

text \<open>
  An example environment whose handlers never raise, and an example configuration whose
  templates have no block placeholder and whose subreddit accepts no post.
\<close>

definition example_calm_env :: Env where
  "example_calm_env =
     example_env
       \<lparr>get_service_handler := (\<lambda>sv. (example_handler sv)
          \<lparr>get_latest_episode := (\<lambda>st ua.
             if show_key st = ''none'' \<or> service_id sv = 2 then Inr None
             else Inr (Some example_episode))\<rparr>)\<rparr>"

definition example_plain :: Config where
  "example_plain = example_closed\<lparr>post_body := ''New episode''\<rparr>"

text \<open>The example world after the episode has been announced.\<close>

definition example_announced :: World where
  "example_announced =
     \<lparr>db = example_db
        \<lparr>db_shows := [example_show\<lparr>show_delayed := False\<rparr>],
         db_episodes := [\<lparr>record_show = 1, record_number = 5, record_link = ''http://redd.it/abc''\<rparr>]\<rparr>,
      calls =
        [StreamHasEpisode example_stream 5,
         SubmitTextPost ''anime'' ''Show - Episode 6: Pilot'' ''S: L'',
         AddEpisode 1 5 ''http://redd.it/abc'',
         SetShowDelayed example_show False]\<rparr>"

section \<open>Properties\<close>

subsection \<open>Rendering plain templates\<close>

lemma build_string_Nil: "build_string ext kwargs [] = Inr []"
  by (simp add: build_string.simps)

lemma markup_next_literal:
  assumes "list_all not_brace s" and "t \<noteq> []"
  shows "markup_next (s @ t) =
           (case markup_next t of Inl e \<Rightarrow> Inl e | Inr (lit, m, r) \<Rightarrow> Inr (s @ lit, m, r))"
proof -
  from assms(1) have a: "\<forall>x\<in>set s. not_brace x" by (simp add: list_all_iff)
  then have tw: "takeWhile not_brace (s @ t) = s @ takeWhile not_brace t"
    and dw: "dropWhile not_brace (s @ t) = dropWhile not_brace t"
    by simp_all
  show ?thesis
  proof (cases "dropWhile not_brace t")
    case Nil
    show ?thesis unfolding markup_next_def Let_def tw dw Nil by simp
  next
    case (Cons c r)
    show ?thesis unfolding markup_next_def Let_def tw dw Cons
      by (cases r) (simp_all split: sum.splits prod.splits)
  qed
qed

lemma markup_next_all_literal:
  assumes "list_all not_brace s"
  shows "markup_next s = Inr (s, None, [])"
proof -
  from assms have a: "\<forall>x\<in>set s. not_brace x" by (simp add: list_all_iff)
  have tw: "takeWhile not_brace s = s" using a by simp
  have dw: "dropWhile not_brace s = []" using a by simp
  show ?thesis unfolding markup_next_def Let_def tw dw by simp
qed

lemma build_string_literal:
  assumes "list_all not_brace s"
  shows "build_string ext kwargs (s @ t) = bind_err (build_string ext kwargs t) (\<lambda>r. Inr (s @ r))"
proof (cases "s = []")
  case True
  then show ?thesis by (simp add: bind_err_def split: sum.splits)
next
  case False
  note s = this
  show ?thesis
  proof (cases "t = []")
    case True
    with s assms show ?thesis
      by (simp add: build_string.simps [of _ _ s] markup_next_all_literal build_string_Nil bind_err_def)
  next
    case False
    with s have st: "s @ t \<noteq> []" by simp
    show ?thesis
      using False st
      by (subst build_string.simps, subst (2) build_string.simps)
         (simp add: markup_next_literal [OF assms False] bind_err_def
               split: sum.splits prod.splits option.splits)
  qed
qed

lemma scan_field_name_plain:
  assumes "list_all plain_char n"
  shows "scan_field_name (n @ CHR ''}'' # t) = Inr (n, CHR ''}'', t)"
  using assms by (induction n) (auto simp: plain_char_def)

lemma takeWhile_not_accessor_plain:
  assumes "list_all plain_char n"
  shows "takeWhile not_accessor n = n" and "dropWhile not_accessor n = []"
proof -
  from assms have "\<forall>x\<in>set n. not_accessor x"
    by (auto simp: list_all_iff plain_char_def not_accessor_def)
  then show "takeWhile not_accessor n = n" and "dropWhile not_accessor n = []" by simp_all
qed

lemma output_markup_plain:
  assumes "simple_name n"
  shows "output_markup ext kwargs (Markup n None []) = Inr (py_str (safe_dict kwargs n))"
proof -
  from assms have pl: "list_all plain_char n" by (simp add: simple_name_def)
  have an: "arg_name (Markup n None []) = n" and ac: "accessors (Markup n None []) = []"
    using takeWhile_not_accessor_plain [OF pl] by (simp_all add: arg_name_def accessors_def)
  from assms have "\<not> is_positional n" by (simp add: simple_name_def is_positional_def)
  then show ?thesis unfolding output_markup_def an ac by simp
qed

lemma build_string_placeholder:
  assumes "simple_name n"
  shows "build_string ext kwargs (CHR ''{'' # n @ CHR ''}'' # t) =
           bind_err (build_string ext kwargs t) (\<lambda>r. Inr (py_str (safe_dict kwargs n) @ r))"
proof -
  from assms obtain c cs where n: "n = c # cs" and c: "plain_char c"
    by (cases n) (auto simp: simple_name_def)
  from assms have pl: "list_all plain_char n" by (simp add: simple_name_def)
  have pf: "parse_field (n @ CHR ''}'' # t) = Inr (Markup n None [], t)"
    by (simp add: parse_field_def scan_field_name_plain [OF pl])
  have mn: "markup_next (CHR ''{'' # n @ CHR ''}'' # t) = Inr ([], Some (Markup n None []), t)"
    using c pf unfolding markup_next_def Let_def
    by (simp add: not_brace_def n plain_char_def)
  show ?thesis
    by (subst build_string.simps)
       (simp add: mn output_markup_plain [OF assms] bind_err_def split: sum.splits)
qed

lemma piece_output_safe_dict:
  "piece_output kwargs (Placeholder n) = py_str (safe_dict kwargs n)"
  by (simp add: safe_dict_def py_str_def split: option.splits)

lemma build_string_pieces:
  assumes "list_all simple_piece ps"
  shows "build_string ext kwargs (concat (map piece_source ps)) =
           Inr (concat (map (piece_output kwargs) ps))"
  using assms
proof (induction ps)
  case Nil
  then show ?case by (simp add: build_string_Nil)
next
  case (Cons p ps)
  then show ?case
  proof (cases p)
    case (Text s)
    with Cons show ?thesis by (simp add: build_string_literal bind_err_def)
  next
    case (Placeholder n)
    with Cons show ?thesis
      by (simp add: build_string_placeholder bind_err_def piece_output_safe_dict
               del: piece_output.simps)
  qed
qed

lemma piece_output_unused:
  assumes "Placeholder k \<notin> set ps"
  shows "map (piece_output (kwargs(k \<mapsto> v))) ps = map (piece_output kwargs) ps"
proof (rule map_cong [OF refl])
  fix p assume "p \<in> set ps"
  with assms show "piece_output (kwargs(k \<mapsto> v)) p = piece_output kwargs p"
    by (cases p) auto
qed

subsection \<open>Numbers as text\<close>

lemma digit_char_is_digit: "is_digit (digit_char n)"
proof -
  have "n mod 10 < 10" by simp
  then have "n mod 10 = 0 \<or> n mod 10 = 1 \<or> n mod 10 = 2 \<or> n mod 10 = 3 \<or> n mod 10 = 4 \<or>
             n mod 10 = 5 \<or> n mod 10 = 6 \<or> n mod 10 = 7 \<or> n mod 10 = 8 \<or> n mod 10 = 9"
    by arith
  then show ?thesis
    unfolding digit_char_def by (auto simp: is_digit_def)
qed

lemma nat_digits_nonempty: "nat_digits n \<noteq> []"
  by (subst nat_digits.simps) simp

lemma nat_digits_digits: "list_all is_digit (nat_digits n)"
proof (induction n rule: nat_digits.induct)
  case (1 n)
  then show ?case
    by (subst nat_digits.simps) (simp add: digit_char_is_digit)
qed

lemma is_digit_not_space: "is_digit c \<Longrightarrow> \<not> is_space c"
  by (simp add: is_digit_def is_space_def Let_def)

lemma strip_ends:
  assumes "s \<noteq> []" and "\<not> is_space (hd s)" and "\<not> is_space (last s)"
  shows "strip s = s"
proof -
  from assms(1,2) have a: "dropWhile is_space s = s" by (cases s) auto
  from assms(1,3) have b: "dropWhile is_space (rev s) = rev s"
    by (cases "rev s") (auto simp: hd_rev [symmetric] simp del: hd_rev)
  show ?thesis unfolding strip_def a b by simp
qed

lemma strip_str_int: "strip (str_int i) = str_int i"
proof -
  have e: "\<not> is_space c" if "c \<in> set (nat_digits n)" for n c
  proof -
    from nat_digits_digits [of n] that have "is_digit c" by (simp add: list_all_iff)
    then show ?thesis by (rule is_digit_not_space)
  qed
  have d: "\<And>n. \<not> is_space (hd (nat_digits n))" "\<And>n. \<not> is_space (last (nat_digits n))"
    by (rule e, rule hd_in_set, rule nat_digits_nonempty)
       (rule e, rule last_in_set, rule nat_digits_nonempty)
  have m: "\<not> is_space CHR ''-''" by (simp add: is_space_def)
  show ?thesis
    by (rule strip_ends) (auto simp: str_int_def nat_digits_nonempty d m)
qed

lemma format_post_text_episode:
  "format_post_text env d ''{episode}'' formats sh ep st =
     Inr (str_int (number ep + display_offset st))"
proof -
  have sp: "list_all simple_piece [Placeholder ''episode'']"
    by (simp add: simple_name_def plain_char_def is_digit_def)
  have sf: "\<And>kw. kw ''s'' = None \<Longrightarrow> safe_format (format_field env) ''{episode}'' kw =
              Inr (piece_output kw (Placeholder ''episode''))"
    using build_string_pieces [OF sp, of "format_field env"] by (simp add: safe_format_def)
  show ?thesis
    by (simp add: format_post_text_def format_block_def bind_err_def sf py_str_def strip_str_int)
qed

lemma format_post_text_plain:
  assumes "list_all simple_piece ps"
    and "no_block_placeholder (concat (map piece_source ps))"
  shows "format_post_text env d (concat (map piece_source ps)) formats sh cand st =
           Inr (strip (concat (map (piece_output (post_values sh cand st)) ps)))"
  using assms(2)
  by (simp add: format_post_text_def format_block_def bind_err_def safe_format_def
        build_string_pieces [OF assms(1)] no_block_placeholder_def post_values_def)

subsection \<open>The episode processor\<close>

lemma create_reddit_post_frame:
  assumes "create_reddit_post cfg env sh st ep submit w = (r, w2)"
  shows "db w2 = db w \<and>
         (calls w2 = calls w \<or>
          (\<exists>t b. submit \<and> calls w2 = calls w @ [SubmitTextPost (subreddit cfg) t b] \<and>
                 create_post_contents cfg env (db w) sh st ep = Inr (t, b)))"
  using assms unfolding create_reddit_post_def log_call_def Let_def
  by (auto split: sum.splits prod.splits if_splits option.splits)

lemma stream_has_episode_add:
  "stream_has_episode (add_episode d (stream_show st) n url) st n"
  by (simp add: stream_has_episode_def add_episode_def)

lemma stream_has_episode_set_show_delayed:
  "stream_has_episode (set_show_delayed d sh b) st n = stream_has_episode d st n"
  by (simp add: stream_has_episode_def set_show_delayed_def)

lemma process_seen:
  assumes "is_live ep" and "stream_has_episode (db w) st (number ep - remote_offset st)"
  shows "process_new_episode cfg env sh st ep w =
           (None, ep\<lparr>number := number ep - remote_offset st\<rparr>,
            w\<lparr>calls := calls w @ [StreamHasEpisode st (number ep - remote_offset st)]\<rparr>)"
  using assms by (simp add: process_new_episode_def log_call_def Let_def)

lemma example_first_run:
  "process_new_episode example_config example_env example_show example_stream example_episode
     example_world = (None, example_episode\<lparr>number := 5\<rparr>, example_announced)"
  by code_simp

subsection \<open>The discovery driver\<close>

lemma check_generic_found:
  assumes "generic_services env svs = misses @ sv # later"
    and "list_all (\<lambda>m. probe cfg env st m = Inr None) misses"
    and "probe cfg env st sv = Inr (Some ep)"
  shows "check_generic cfg env sh st svs w =
           (case process_new_episode cfg env sh st ep (log_probes st (misses @ [sv]) w) of
              (err, ep1, w2) \<Rightarrow> (err, w2))"
  using assms
proof (induction svs arbitrary: misses w)
  case Nil
  then show ?case by (simp add: generic_services_def)
next
  case (Cons x xs)
  show ?case
  proof (cases "is_generic (get_service_handler env x)")
    case False
    with Cons.prems have "generic_services env xs = misses @ sv # later"
      by (simp add: generic_services_def)
    from Cons.IH [OF this Cons.prems(2,3)] False show ?thesis by simp
  next
    case True
    with Cons.prems(1) have f: "x # generic_services env xs = misses @ sv # later"
      by (simp add: generic_services_def)
    show ?thesis
    proof (cases misses)
      case Nil
      with f have "x = sv" by simp
      with True Cons.prems(3) Nil show ?thesis
        by (simp add: probe_def log_probes_def log_call_def)
    next
      case (Cons m ms)
      with f have x: "x = m" and g: "generic_services env xs = ms @ sv # later" by simp_all
      from Cons.prems(2) Cons have pm: "probe cfg env st m = Inr None"
        and pms: "list_all (\<lambda>m. probe cfg env st m = Inr None) ms" by simp_all
      from Cons.IH [OF g pms Cons.prems(3), of "log_call (GetLatestEpisode x st) w"]
      show ?thesis
        using True pm x Cons by (simp add: probe_def log_probes_def log_call_def)
    qed
  qed
qed

lemma check_generic_none:
  assumes "list_all (\<lambda>m. probe cfg env st m = Inr None) (generic_services env svs)"
  shows "check_generic cfg env sh st svs w = (None, log_probes st (generic_services env svs) w)"
  using assms
proof (induction svs arbitrary: w)
  case Nil
  then show ?case by (simp add: generic_services_def log_probes_def)
next
  case (Cons x xs)
  show ?case
  proof (cases "is_generic (get_service_handler env x)")
    case False
    with Cons show ?thesis by (simp add: generic_services_def)
  next
    case True
    with Cons.prems have px: "probe cfg env st x = Inr None"
      and rest: "list_all (\<lambda>m. probe cfg env st m = Inr None) (generic_services env xs)"
      by (simp_all add: generic_services_def)
    from Cons.IH [OF rest, of "log_call (GetLatestEpisode x st) w"] True px
    show ?thesis
      by (simp add: generic_services_def probe_def log_probes_def log_call_def)
  qed
qed

lemma same_catalog_refl: "same_catalog d d"
  by (simp add: same_catalog_def)

lemma same_catalog_trans: "same_catalog a b \<Longrightarrow> same_catalog b c \<Longrightarrow> same_catalog a c"
  by (simp add: same_catalog_def)

lemma extends_refl: "extends w w"
  by (simp add: extends_def same_catalog_refl)

lemma extends_trans: "extends a b \<Longrightarrow> extends b c \<Longrightarrow> extends a c"
  by (auto simp: extends_def intro: same_catalog_trans)

lemma extends_calls: "extends w w' \<Longrightarrow> c \<in> set (calls w) \<Longrightarrow> c \<in> set (calls w')"
  by (auto simp: extends_def)

lemma extends_log_call: "extends w (log_call c w)"
  by (auto simp: extends_def log_call_def same_catalog_refl)

lemma find_shows_catalog:
  assumes "map (\<lambda>s. (show_id s, show_enabled s)) xs = map (\<lambda>s. (show_id s, show_enabled s)) ys"
  shows "map_option show_enabled (find (\<lambda>sh. show_id sh = k) xs) =
         map_option show_enabled (find (\<lambda>sh. show_id sh = k) ys)"
  using assms
proof (induction xs arbitrary: ys)
  case Nil
  then show ?case by simp
next
  case (Cons x xs)
  then obtain y ys' where ys: "ys = y # ys'" by (cases ys) auto
  with Cons.prems have "show_id x = show_id y" "show_enabled x = show_enabled y"
    and "map (\<lambda>s. (show_id s, show_enabled s)) xs = map (\<lambda>s. (show_id s, show_enabled s)) ys'"
    by simp_all
  with Cons.IH [of ys'] ys show ?case by simp
qed

lemma same_catalog_checkable:
  assumes "same_catalog d d'"
  shows "checkable d' st = checkable d st"
proof -
  from assms have "map_option show_enabled (get_show d' st) = map_option show_enabled (get_show d st)"
    unfolding get_show_def same_catalog_def by (intro find_shows_catalog) simp
  then show ?thesis
    by (cases "get_show d st"; cases "get_show d' st") (auto simp: checkable_def)
qed

lemma same_catalog_add_episode: "same_catalog d (add_episode d s n u)"
  by (simp add: same_catalog_def add_episode_def)

lemma same_catalog_set_show_delayed: "same_catalog d (set_show_delayed d sh b)"
  by (simp add: same_catalog_def set_show_delayed_def comp_def if_distrib cong: if_cong)

lemma create_reddit_post_extends:
  assumes "create_reddit_post cfg env sh st ep submit w = (r, w2)"
  shows "extends w w2"
  using create_reddit_post_frame [OF assms]
  by (auto simp: extends_def same_catalog_refl)

lemma process_extends:
  assumes "process_new_episode cfg env sh st ep w = (err, ep1, w')"
  shows "extends w w'"
proof (cases "is_live ep")
  case False
  with assms show ?thesis by (simp add: process_new_episode_def extends_refl)
next
  case True
  let ?n = "number ep - remote_offset st"
  let ?ep1 = "ep\<lparr>number := ?n\<rparr>"
  let ?w0 = "log_call (StreamHasEpisode st ?n) w"
  obtain r w2 where crp: "create_reddit_post cfg env sh st ?ep1 (\<not> debug cfg) ?w0 = (r, w2)"
    by (cases "create_reddit_post cfg env sh st ?ep1 (\<not> debug cfg) ?w0")
  have e0: "extends w ?w0" by (rule extends_log_call)
  have e2: "extends w w2"
    by (rule extends_trans [OF e0 create_reddit_post_extends [OF crp]])
  have step: "extends w2 (log_call c (w2\<lparr>db := d\<rparr>))" if "same_catalog (db w2) d" for c d
    using that by (auto simp: extends_def log_call_def)
  show ?thesis
  proof (cases "stream_has_episode (db w) st ?n")
    case True
    with \<open>is_live ep\<close> assms e0 show ?thesis
      by (simp add: process_new_episode_def Let_def)
  next
    case False
    show ?thesis
    proof (cases r)
      case (Inl e)
      with False True assms crp e2 show ?thesis
        by (simp add: process_new_episode_def Let_def)
    next
      case (Inr u)
      show ?thesis
      proof (cases u)
        case None
        with Inr False True assms crp e2 show ?thesis
          by (simp add: process_new_episode_def Let_def)
      next
        case (Some url)
        let ?w3 = "log_call (AddEpisode (stream_show st) ?n url)
                     (w2\<lparr>db := add_episode (db w2) (stream_show st) ?n url\<rparr>)"
        have e3: "extends w ?w3"
          by (rule extends_trans [OF e2 step [OF same_catalog_add_episode]])
        have e4: "extends w (log_call (SetShowDelayed sh False)
                     (?w3\<lparr>db := set_show_delayed (db ?w3) sh False\<rparr>))"
          by (rule extends_trans [OF e3])
             (auto simp: extends_def log_call_def same_catalog_set_show_delayed)
        from Some Inr False True assms crp e3 e4 show ?thesis
          by (auto simp: process_new_episode_def Let_def split: if_splits)
      qed
    qed
  qed
qed

lemma check_streams_covers:
  assumes "check_streams cfg env sv sts w = (None, w')"
  shows "extends w w' \<and>
         (\<forall>st\<in>set sts. checkable (db w) st \<longrightarrow> GetLatestEpisode sv st \<in> set (calls w'))"
  using assms
proof (induction sts arbitrary: w)
  case Nil
  then show ?case by (simp add: extends_refl)
next
  case (Cons st rest)
  show ?case
  proof (cases "checkable (db w) st")
    case False
    with Cons.prems have "check_streams cfg env sv rest w = (None, w')"
      by (auto simp: checkable_def split: option.splits if_splits)
    from Cons.IH [OF this] False show ?thesis by simp
  next
    case True
    then obtain sh where sh: "get_show (db w) st = Some sh" "show_enabled sh"
      by (auto simp: checkable_def split: option.splits)
    let ?w1 = "log_call (GetLatestEpisode sv st) w"
    have e1: "extends w ?w1" by (rule extends_log_call)
    have in1: "GetLatestEpisode sv st \<in> set (calls ?w1)" by (simp add: log_call_def)
    from Cons.prems sh obtain w2 where
      rest: "check_streams cfg env sv rest w2 = (None, w')" and e2: "extends ?w1 w2"
      by (auto simp: Let_def extends_refl split: sum.splits option.splits prod.splits
               dest: process_extends)
    from Cons.IH [OF rest] have e3: "extends w2 w'"
      and cov: "\<forall>st\<in>set rest. checkable (db w2) st \<longrightarrow> GetLatestEpisode sv st \<in> set (calls w')"
      by simp_all
    have e12: "extends w w2" by (rule extends_trans [OF e1 e2])
    then have sc: "same_catalog (db w) (db w2)" by (simp add: extends_def)
    have ext: "extends w w'" by (rule extends_trans [OF e12 e3])
    have "GetLatestEpisode sv st \<in> set (calls w')"
      by (rule extends_calls [OF extends_trans [OF e2 e3] in1])
    with ext cov same_catalog_checkable [OF sc] show ?thesis by simp
  qed
qed

lemma check_services_covers:
  assumes "check_services cfg env svs w = (None, w')"
  shows "extends w w' \<and>
         (\<forall>sv\<in>set svs. \<forall>st\<in>set (get_streams_of_service (db w) sv).
            checkable (db w) st \<longrightarrow> GetLatestEpisode sv st \<in> set (calls w'))"
  using assms
proof (induction svs arbitrary: w)
  case Nil
  then show ?case by (simp add: extends_refl)
next
  case (Cons sv rest)
  from Cons.prems obtain w1 where
    first: "check_streams cfg env sv (get_streams_of_service (db w) sv) w = (None, w1)"
    and more: "check_services cfg env rest w1 = (None, w')"
    by (auto split: prod.splits option.splits)
  from check_streams_covers [OF first] have e1: "extends w w1"
    and cov1: "\<forall>st\<in>set (get_streams_of_service (db w) sv).
                 checkable (db w) st \<longrightarrow> GetLatestEpisode sv st \<in> set (calls w1)"
    by simp_all
  from Cons.IH [OF more] have e2: "extends w1 w'"
    and cov2: "\<forall>sv\<in>set rest. \<forall>st\<in>set (get_streams_of_service (db w1) sv).
                 checkable (db w1) st \<longrightarrow> GetLatestEpisode sv st \<in> set (calls w')"
    by simp_all
  from e1 have sc: "same_catalog (db w) (db w1)" by (simp add: extends_def)
  then have str: "\<And>s. get_streams_of_service (db w1) s = get_streams_of_service (db w) s"
    by (simp add: get_streams_of_service_def same_catalog_def)
  have "extends w w'" by (rule extends_trans [OF e1 e2])
  moreover from cov1 e2 have "\<forall>st\<in>set (get_streams_of_service (db w) sv).
                 checkable (db w) st \<longrightarrow> GetLatestEpisode sv st \<in> set (calls w')"
    by (auto dest: extends_calls)
  ultimately show ?case
    using cov2 str same_catalog_checkable [OF sc] by simp
qed

lemma check_generic_extends:
  "check_generic cfg env sh st svs w = (r, w') \<Longrightarrow> extends w w'"
proof (induction svs arbitrary: w)
  case Nil
  then show ?case by (simp add: extends_refl)
next
  case (Cons sv rest)
  let ?w1 = "log_call (GetLatestEpisode sv st) w"
  have e1: "extends w ?w1" by (rule extends_log_call)
  show ?case
  proof (cases "is_generic (get_service_handler env sv)")
    case False
    with Cons show ?thesis by simp
  next
    case True
    show ?thesis
    proof (cases "get_latest_episode (get_service_handler env sv) st (useragent cfg)")
      case (Inl e)
      with True Cons.prems e1 show ?thesis by (auto simp: Let_def)
    next
      case (Inr found)
      show ?thesis
      proof (cases found)
        case None
        with Inr True Cons.prems have "check_generic cfg env sh st rest ?w1 = (r, w')"
          by (simp add: Let_def)
        from extends_trans [OF e1 Cons.IH [OF this]] show ?thesis .
      next
        case (Some ep)
        with Inr True Cons.prems obtain ep1 where
          "process_new_episode cfg env sh st ep ?w1 = (r, ep1, w')"
          by (auto simp: Let_def split: prod.splits)
        from extends_trans [OF e1 process_extends [OF this]] show ?thesis .
      qed
    qed
  qed
qed

lemma generic_probed_mono:
  assumes "generic_probed cfg env st svs cs" and "set cs \<subseteq> set cs'"
  shows "generic_probed cfg env st svs cs'"
  using assms by (auto simp: generic_probed_def list_all_iff list_ex_iff)

lemma check_generic_covers:
  "check_generic cfg env sh st svs w = (None, w') \<Longrightarrow> generic_probed cfg env st svs (calls w')"
proof (induction svs arbitrary: w)
  case Nil
  then show ?case by (simp add: generic_probed_def generic_services_def)
next
  case (Cons sv rest)
  let ?w1 = "log_call (GetLatestEpisode sv st) w"
  have in1: "GetLatestEpisode sv st \<in> set (calls ?w1)" by (simp add: log_call_def)
  show ?case
  proof (cases "is_generic (get_service_handler env sv)")
    case False
    with Cons.prems have "check_generic cfg env sh st rest w = (None, w')" by simp
    from Cons.IH [OF this] False show ?thesis
      by (simp add: generic_probed_def generic_services_def)
  next
    case True
    show ?thesis
    proof (cases "get_latest_episode (get_service_handler env sv) st (useragent cfg)")
      case (Inl e)
      with True Cons.prems show ?thesis by (simp add: Let_def)
    next
      case (Inr found)
      show ?thesis
      proof (cases found)
        case None
        with Inr True Cons.prems have rest: "check_generic cfg env sh st rest ?w1 = (None, w')"
          by (simp add: Let_def)
        from extends_calls [OF check_generic_extends [OF rest] in1]
        have "GetLatestEpisode sv st \<in> set (calls w')" .
        with Cons.IH [OF rest] True show ?thesis
          by (auto simp: generic_probed_def generic_services_def)
      next
        case (Some ep)
        with Inr True Cons.prems obtain ep1 where
          "process_new_episode cfg env sh st ep ?w1 = (None, ep1, w')"
          by (auto simp: Let_def split: prod.splits)
        from extends_calls [OF process_extends [OF this] in1]
        have "GetLatestEpisode sv st \<in> set (calls w')" .
        with Some Inr True show ?thesis
          by (simp add: generic_probed_def generic_services_def probe_def found_episode_def)
      qed
    qed
  qed
qed

lemma check_shows_covers:
  assumes "check_shows cfg env svs shs w = (None, w')"
  shows "extends w w' \<and> (\<forall>sh\<in>set shs. generic_probed cfg env (from_show sh) svs (calls w'))"
  using assms
proof (induction shs arbitrary: w)
  case Nil
  then show ?case by (simp add: extends_refl)
next
  case (Cons sh rest)
  from Cons.prems obtain w1 where
    first: "check_generic cfg env sh (from_show sh) svs w = (None, w1)"
    and more: "check_shows cfg env svs rest w1 = (None, w')"
    by (auto split: prod.splits option.splits)
  from Cons.IH [OF more] have e2: "extends w1 w'"
    and cov: "\<forall>sh\<in>set rest. generic_probed cfg env (from_show sh) svs (calls w')"
    by simp_all
  have e1: "extends w w1" by (rule check_generic_extends [OF first])
  from e2 have sub: "set (calls w1) \<subseteq> set (calls w')" by (simp add: extends_def)
  have "generic_probed cfg env (from_show sh) svs (calls w')"
    by (rule generic_probed_mono [OF check_generic_covers [OF first] sub])
  with cov extends_trans [OF e1 e2] show ?case by simp
qed

lemma fst_process_new_episode:
  "fst (process_new_episode cfg env sh st ep w) =
     (if is_live ep \<and> \<not> stream_has_episode (db w) st (number ep - remote_offset st) then
        (case fst (create_reddit_post cfg env sh st (ep\<lparr>number := number ep - remote_offset st\<rparr>)
                     (\<not> debug cfg)
                     (log_call (StreamHasEpisode st (number ep - remote_offset st)) w)) of
           Inl e \<Rightarrow> Some e
         | Inr r \<Rightarrow> None)
      else None)"
  by (auto simp: process_new_episode_def Let_def split: prod.splits sum.splits option.splits)

lemma check_streams_not_found:
  "checkable (db v) st \<and> probe cfg env st sv = Inr None \<longrightarrow>
     check_streams cfg env sv (st # rest) v =
       check_streams cfg env sv rest (log_call (GetLatestEpisode sv st) v)"
  by (auto simp: checkable_def probe_def Let_def split: option.splits)

lemma check_streams_skipped:
  "\<not> checkable (db v) st \<longrightarrow>
     check_streams cfg env sv (st # rest) v = check_streams cfg env sv rest v"
  by (auto simp: checkable_def split: option.splits)

lemma check_streams_processed:
  "get_show (db v) st = Some sh \<and> show_enabled sh \<and> probe cfg env st sv = Inr (Some ep) \<and>
   fst (process_new_episode cfg env sh st ep (log_call (GetLatestEpisode sv st) v)) = None \<longrightarrow>
     check_streams cfg env sv (st # rest) v =
       check_streams cfg env sv rest
         (snd (snd (process_new_episode cfg env sh st ep (log_call (GetLatestEpisode sv st) v))))"
  by (auto simp: probe_def Let_def split: prod.splits option.splits)

lemma process_value_outcomes:
  "\<not> is_live ep \<or> stream_has_episode (db x) st (number ep - remote_offset st) \<or>
   fst (create_reddit_post cfg env sh st (ep\<lparr>number := number ep - remote_offset st\<rparr>)
          (\<not> debug cfg) (log_call (StreamHasEpisode st (number ep - remote_offset st)) x)) = Inr r \<longrightarrow>
     fst (process_new_episode cfg env sh st ep x) = None"
  by (auto simp: fst_process_new_episode)

lemma check_services_next:
  "check_streams cfg env sv (get_streams_of_service (db v) sv) v = (None, v1) \<longrightarrow>
     check_services cfg env (sv # svs) v = check_services cfg env svs v1"
  by simp

lemma create_reddit_post_no_raise:
  assumes "\<forall>d sh st ep e. create_post_contents cfg env d sh st ep \<noteq> Inl e"
    and "\<forall>su t b e. submit_text_post env su t b \<noteq> Inl e"
  shows "\<exists>r. fst (create_reddit_post cfg env sh st ep submit w) = Inr r"
proof -
  from assms(1) obtain t b where c: "create_post_contents cfg env (db w) sh st ep = Inr (t, b)"
    by (cases "create_post_contents cfg env (db w) sh st ep") auto
  from assms(2) obtain r where s: "submit_text_post env (subreddit cfg) t b = Inr r"
    by (cases "submit_text_post env (subreddit cfg) t b") auto
  show ?thesis
    by (cases r) (simp_all add: create_reddit_post_def c s Let_def)
qed

lemma process_no_raise:
  assumes "\<forall>d sh st ep e. create_post_contents cfg env d sh st ep \<noteq> Inl e"
    and "\<forall>su t b e. submit_text_post env su t b \<noteq> Inl e"
  shows "fst (process_new_episode cfg env sh st ep w) = None"
proof -
  from create_reddit_post_no_raise [OF assms]
  obtain r where "fst (create_reddit_post cfg env sh st (ep\<lparr>number := number ep - remote_offset st\<rparr>)
          (\<not> debug cfg) (log_call (StreamHasEpisode st (number ep - remote_offset st)) w)) = Inr r"
    by blast
  then show ?thesis by (simp add: fst_process_new_episode)
qed

lemma check_streams_no_raise:
  assumes "\<forall>sv st e. probe cfg env st sv \<noteq> Inl e"
    and "\<forall>d sh st ep e. create_post_contents cfg env d sh st ep \<noteq> Inl e"
    and "\<forall>su t b e. submit_text_post env su t b \<noteq> Inl e"
  shows "fst (check_streams cfg env sv sts w) = None"
proof (induction sts arbitrary: w)
  case Nil
  show ?case by simp
next
  case (Cons st rest)
  show ?case
  proof (cases "checkable (db w) st")
    case False
    with check_streams_skipped [of w st cfg env sv rest] Cons show ?thesis by simp
  next
    case True
    then obtain sh where sh: "get_show (db w) st = Some sh" "show_enabled sh"
      by (auto simp: checkable_def split: option.splits)
    from assms(1) obtain r where r: "probe cfg env st sv = Inr r"
      by (cases "probe cfg env st sv") auto
    show ?thesis
    proof (cases r)
      case None
      with r True check_streams_not_found [of w st cfg env sv rest] Cons show ?thesis by simp
    next
      case (Some ep)
      from process_no_raise [OF assms(2,3)]
      have "fst (process_new_episode cfg env sh st ep (log_call (GetLatestEpisode sv st) w)) = None" .
      with Some r sh check_streams_processed [of w st sh cfg env sv ep rest] Cons
      show ?thesis by simp
    qed
  qed
qed

lemma check_services_no_raise:
  assumes "\<forall>sv st e. probe cfg env st sv \<noteq> Inl e"
    and "\<forall>d sh st ep e. create_post_contents cfg env d sh st ep \<noteq> Inl e"
    and "\<forall>su t b e. submit_text_post env su t b \<noteq> Inl e"
  shows "fst (check_services cfg env svs w) = None"
proof (induction svs arbitrary: w)
  case Nil
  show ?case by simp
next
  case (Cons sv rest)
  from check_streams_no_raise [OF assms, of sv "get_streams_of_service (db w) sv" w]
  obtain w1 where "check_streams cfg env sv (get_streams_of_service (db w) sv) w = (None, w1)"
    by (cases "check_streams cfg env sv (get_streams_of_service (db w) sv) w") auto
  with Cons show ?case by simp
qed

lemma check_generic_no_raise:
  assumes "\<forall>sv st e. probe cfg env st sv \<noteq> Inl e"
    and "\<forall>d sh st ep e. create_post_contents cfg env d sh st ep \<noteq> Inl e"
    and "\<forall>su t b e. submit_text_post env su t b \<noteq> Inl e"
  shows "fst (check_generic cfg env sh st svs w) = None"
proof (induction svs arbitrary: w)
  case Nil
  show ?case by simp
next
  case (Cons sv rest)
  from assms(1) obtain r where r: "probe cfg env st sv = Inr r"
    by (cases "probe cfg env st sv") auto
  show ?case
  proof (cases r)
    case None
    with r Cons show ?thesis by (simp add: probe_def Let_def)
  next
    case (Some ep)
    from process_no_raise [OF assms(2,3)]
    have "fst (process_new_episode cfg env sh st ep (log_call (GetLatestEpisode sv st) w)) = None" .
    with Some r Cons show ?thesis
      by (auto simp: probe_def Let_def split: prod.splits)
  qed
qed

lemma check_shows_no_raise:
  assumes "\<forall>sv st e. probe cfg env st sv \<noteq> Inl e"
    and "\<forall>d sh st ep e. create_post_contents cfg env d sh st ep \<noteq> Inl e"
    and "\<forall>su t b e. submit_text_post env su t b \<noteq> Inl e"
  shows "fst (check_shows cfg env svs shs w) = None"
proof (induction shs arbitrary: w)
  case Nil
  show ?case by simp
next
  case (Cons sh rest)
  from check_generic_no_raise [OF assms, of sh "from_show sh" svs w]
  obtain w1 where "check_generic cfg env sh (from_show sh) svs w = (None, w1)"
    by (cases "check_generic cfg env sh (from_show sh) svs w") auto
  with Cons show ?case by simp
qed

lemma main_covers:
  "main cfg env w = (None, w') \<longrightarrow>
      (\<forall>sv\<in>set (get_services_enabled (db w)).
         \<forall>st\<in>set (get_streams_of_service (db w) sv).
           checkable (db w) st \<longrightarrow> GetLatestEpisode sv st \<in> set (calls w')) \<and>
      (\<exists>w1. check_services cfg env (get_services_enabled (db w)) (log_call InitReddit w) =
               (None, w1) \<and>
             (\<forall>sh\<in>set (other_shows env (db w1)).
                generic_probed cfg env (from_show sh) (get_services_enabled (db w)) (calls w')))"
proof (intro conjI impI)
  assume run: "main cfg env w = (None, w')"
  let ?w0 = "log_call InitReddit w"
  let ?svs = "get_services_enabled (db w)"
  have db0: "db ?w0 = db w" by (simp add: log_call_def)
  from run obtain w1 where
    p1: "check_services cfg env ?svs ?w0 = (None, w1)"
    and p2: "check_shows cfg env ?svs (other_shows env (db w1)) w1 = (None, w')"
    by (auto simp: main_def Let_def db0 split: option.splits prod.splits)
  from check_services_covers [OF p1] have
    cov1: "\<forall>sv\<in>set ?svs. \<forall>st\<in>set (get_streams_of_service (db w) sv).
             checkable (db w) st \<longrightarrow> GetLatestEpisode sv st \<in> set (calls w1)"
    by (simp add: db0)
  from check_shows_covers [OF p2] have e2: "extends w1 w'"
    and cov2: "\<forall>sh\<in>set (other_shows env (db w1)).
                 generic_probed cfg env (from_show sh) ?svs (calls w')"
    by simp_all
  from cov1 e2 show "\<forall>sv\<in>set ?svs. \<forall>st\<in>set (get_streams_of_service (db w) sv).
             checkable (db w) st \<longrightarrow> GetLatestEpisode sv st \<in> set (calls w')"
    by (auto dest: extends_calls)
  from p1 cov2 show "\<exists>w1. check_services cfg env ?svs ?w0 = (None, w1) \<and>
             (\<forall>sh\<in>set (other_shows env (db w1)).
                generic_probed cfg env (from_show sh) ?svs (calls w'))"
    by blast
qed

lemma main_no_raise:
  "init_reddit env cfg = None \<and>
   (\<forall>sv st e. probe cfg env st sv \<noteq> Inl e) \<and>
   (\<forall>d sh st ep e. create_post_contents cfg env d sh st ep \<noteq> Inl e) \<and>
   (\<forall>su t b e. submit_text_post env su t b \<noteq> Inl e) \<longrightarrow>
     (\<exists>u'. main cfg env u = (None, u') \<and>
        (\<forall>sv\<in>set (get_services_enabled (db u)).
           \<forall>st\<in>set (get_streams_of_service (db u) sv).
             checkable (db u) st \<longrightarrow> GetLatestEpisode sv st \<in> set (calls u')) \<and>
        (\<exists>u1. check_services cfg env (get_services_enabled (db u)) (log_call InitReddit u) =
                 (None, u1) \<and>
               (\<forall>sh\<in>set (other_shows env (db u1)).
                  generic_probed cfg env (from_show sh) (get_services_enabled (db u)) (calls u'))))"
proof
  assume h: "init_reddit env cfg = None \<and>
   (\<forall>sv st e. probe cfg env st sv \<noteq> Inl e) \<and>
   (\<forall>d sh st ep e. create_post_contents cfg env d sh st ep \<noteq> Inl e) \<and>
   (\<forall>su t b e. submit_text_post env su t b \<noteq> Inl e)"
  then have i: "init_reddit env cfg = None"
    and p: "\<forall>sv st e. probe cfg env st sv \<noteq> Inl e"
    and c: "\<forall>d sh st ep e. create_post_contents cfg env d sh st ep \<noteq> Inl e"
    and s: "\<forall>su t b e. submit_text_post env su t b \<noteq> Inl e"
    by simp_all
  let ?u0 = "log_call InitReddit u"
  let ?svs = "get_services_enabled (db u)"
  from check_services_no_raise [OF p c s, of ?svs ?u0]
  obtain u1 where p1: "check_services cfg env ?svs ?u0 = (None, u1)"
    by (cases "check_services cfg env ?svs ?u0") auto
  from check_shows_no_raise [OF p c s, of ?svs "other_shows env (db u1)" u1]
  obtain u' where p2: "check_shows cfg env ?svs (other_shows env (db u1)) u1 = (None, u')"
    by (cases "check_shows cfg env ?svs (other_shows env (db u1)) u1") auto
  from i p1 p2 have run: "main cfg env u = (None, u')"
    by (simp add: main_def Let_def log_call_def)
  with main_covers [of cfg env u u'] show "\<exists>u'. main cfg env u = (None, u') \<and>
        (\<forall>sv\<in>set (get_services_enabled (db u)).
           \<forall>st\<in>set (get_streams_of_service (db u) sv).
             checkable (db u) st \<longrightarrow> GetLatestEpisode sv st \<in> set (calls u')) \<and>
        (\<exists>u1. check_services cfg env (get_services_enabled (db u)) (log_call InitReddit u) =
                 (None, u1) \<and>
               (\<forall>sh\<in>set (other_shows env (db u1)).
                  generic_probed cfg env (from_show sh) (get_services_enabled (db u)) (calls u')))"
    by blast
qed

lemma example_plain_composes:
  "\<forall>d sh st ep e. create_post_contents example_plain example_calm_env d sh st ep \<noteq> Inl e"
proof -
  have sp1: "list_all simple_piece
     [Placeholder ''show_name'', Text '' - Episode '', Placeholder ''episode'',
      Placeholder ''episode_name'']"
    by (simp add: simple_name_def plain_char_def is_digit_def not_brace_def)
  have nb1: "no_block_placeholder (concat (map piece_source
     [Placeholder ''show_name'', Text '' - Episode '', Placeholder ''episode'',
      Placeholder ''episode_name'']))"
    by (simp add: no_block_placeholder_def)
  have sp2: "list_all simple_piece [Text ''New episode'']" by (simp add: not_brace_def)
  have nb2: "no_block_placeholder (concat (map piece_source [Text ''New episode'']))"
    by (simp add: no_block_placeholder_def)
  have t: "post_title example_plain = concat (map piece_source
     [Placeholder ''show_name'', Text '' - Episode '', Placeholder ''episode'',
      Placeholder ''episode_name''])"
    and b: "post_body example_plain = concat (map piece_source [Text ''New episode''])"
    by (simp_all add: example_plain_def example_closed_def example_config_def)
  show ?thesis
    unfolding create_post_contents_def t b
    by (simp only: format_post_text_plain [OF sp1 nb1] format_post_text_plain [OF sp2 nb2])
       (simp add: bind_err_def)
qed

lemma example_calm_handlers:
  "\<forall>sv st e. probe example_plain example_calm_env st sv \<noteq> Inl e"
  by (simp add: probe_def example_calm_env_def example_env_def example_handler_def)

lemma example_calm_submit:
  "\<forall>su t b e. submit_text_post example_calm_env su t b \<noteq> Inl e"
  by (simp add: example_calm_env_def example_env_def)

lemma check_streams_raises:
  "checkable (db v) st \<and> probe cfg env st sv = Inl e \<longrightarrow>
     check_streams cfg env sv (st # rest) v = (Some e, log_call (GetLatestEpisode sv st) v)"
  by (auto simp: checkable_def probe_def Let_def split: option.splits)

lemma check_services_raises:
  "check_streams cfg env sv (get_streams_of_service (db v) sv) v = (Some e, v1) \<longrightarrow>
     check_services cfg env (sv # svs) v = (Some e, v1)"
  by simp

lemma main_raises:
  "init_reddit env cfg = None \<and>
   check_services cfg env (get_services_enabled (db v)) (log_call InitReddit v) = (Some e, v1) \<longrightarrow>
     main cfg env v = (Some e, v1)"
  by (simp add: main_def Let_def log_call_def)

lemma other_shows_set:
  assumes "set (set_iteration env (get_shows_missing_stream d @ get_shows_delayed d)) =
           set (get_shows_missing_stream d @ get_shows_delayed d)"
  shows "set (other_shows env d) =
           {sh \<in> set (db_shows d).
              list_all (\<lambda>st. stream_show st \<noteq> show_id sh) (db_streams d) \<or> show_delayed sh}"
  using assms
  by (auto simp: other_shows_def get_shows_missing_stream_def get_shows_delayed_def)

lemma main_generic_pass:
  assumes "init_reddit env cfg = None"
    and "check_services cfg env (get_services_enabled (db w)) (log_call InitReddit w) = (None, w1)"
  shows "main cfg env w =
           check_shows cfg env (get_services_enabled (db w)) (other_shows env (db w1)) w1"
  using assms by (simp add: main_def Let_def log_call_def)

subsection \<open>The example runs\<close>

lemma example_numbers:
  "number example_episode - remote_offset example_stream = 5"
  "is_live example_episode"
  by (simp_all add: example_episode_def example_stream_def)

lemma example_unseen:
  "\<not> stream_has_episode (db example_world) example_stream
       (number example_episode - remote_offset example_stream)"
  by (simp add: stream_has_episode_def example_world_def example_db_def)

lemma example_closed_post:
  "create_reddit_post example_closed example_env example_show example_stream
     (example_episode\<lparr>number := 5\<rparr>) True
     (log_call (StreamHasEpisode example_stream 5) example_world) =
       (Inr None,
        \<lparr>db = example_db,
         calls = [StreamHasEpisode example_stream 5,
                  SubmitTextPost ''closed'' ''Show - Episode 6: Pilot'' ''S: L'']\<rparr>)"
  by code_simp

lemma example_open_post:
  "create_reddit_post example_config example_env example_show example_stream
     (example_episode\<lparr>number := 5\<rparr>) True
     (log_call (StreamHasEpisode example_stream 5) example_world) =
       (Inr (Some ''http://redd.it/abc''),
        \<lparr>db = example_db,
         calls = [StreamHasEpisode example_stream 5,
                  SubmitTextPost ''anime'' ''Show - Episode 6: Pilot'' ''S: L'']\<rparr>)"
  by code_simp

lemma example_closed_run:
  "process_new_episode example_closed example_env example_show example_stream example_episode
     example_world =
       (None, example_episode\<lparr>number := 5\<rparr>,
        \<lparr>db = example_db,
         calls = [StreamHasEpisode example_stream 5,
                  SubmitTextPost ''closed'' ''Show - Episode 6: Pilot'' ''S: L'']\<rparr>)"
  by code_simp

lemma example_numbered_run:
  "process_new_episode example_numbered example_env example_show example_stream example_episode
     example_world =
       (None, example_episode\<lparr>number := 5\<rparr>,
        \<lparr>db = db example_announced,
         calls = [StreamHasEpisode example_stream 5,
                  SubmitTextPost ''anime'' ''6'' ''S: L'',
                  AddEpisode 1 5 ''http://redd.it/abc'',
                  SetShowDelayed example_show False]\<rparr>)"
  by code_simp

section \<open>The claims of the specification\<close>

text \<open>
  C1. A live episode whose (show, canonical number) pair has a persisted record is a
  no-op for the episode processor: the run returns normally, the database is unchanged
  and the only call it makes is the query \<^verbatim>\<open>stream_has_episode\<close>; nothing is submitted.
  In particular, when a first run on a candidate committed (it called \<^verbatim>\<open>add_episode\<close>),
  a second run from the resulting state on a candidate with the same raw number, as the
  handler would report it again, changes nothing and submits nothing.
\<close>

theorem process_already_seen_is_noop:
  assumes "is_live ep"
  shows "(stream_has_episode (db w) st (number ep - remote_offset st) \<longrightarrow>
            process_new_episode cfg env sh st ep w =
              (None, ep\<lparr>number := number ep - remote_offset st\<rparr>,
               w\<lparr>calls := calls w @ [StreamHasEpisode st (number ep - remote_offset st)]\<rparr>))
       \<and> (case process_new_episode cfg env sh st ep w of
            (err, ep1, w1) \<Rightarrow>
              list_ex is_add_episode (new_calls w w1) \<longrightarrow>
                process_new_episode cfg env sh st ep w1 =
                  (None, ep1,
                   w1\<lparr>calls := calls w1 @ [StreamHasEpisode st (number ep - remote_offset st)]\<rparr>))"
proof (intro conjI impI)
  assume "stream_has_episode (db w) st (number ep - remote_offset st)"
  with assms show "process_new_episode cfg env sh st ep w =
              (None, ep\<lparr>number := number ep - remote_offset st\<rparr>,
               w\<lparr>calls := calls w @ [StreamHasEpisode st (number ep - remote_offset st)]\<rparr>)"
    by (rule process_seen)
next
  let ?n = "number ep - remote_offset st"
  let ?ep1 = "ep\<lparr>number := ?n\<rparr>"
  let ?w1 = "log_call (StreamHasEpisode st ?n) w"
  obtain r w2 where crp: "create_reddit_post cfg env sh st ?ep1 (\<not> debug cfg) ?w1 = (r, w2)"
    by (cases "create_reddit_post cfg env sh st ?ep1 (\<not> debug cfg) ?w1")
  from create_reddit_post_frame [OF crp]
  have dbw2: "db w2 = db w"
    and cw2: "calls w2 = calls ?w1 \<or> (\<exists>t b. calls w2 = calls ?w1 @ [SubmitTextPost (subreddit cfg) t b])"
    by (auto simp: log_call_def)
  show "case process_new_episode cfg env sh st ep w of
            (err, ep1, w1) \<Rightarrow>
              list_ex is_add_episode (new_calls w w1) \<longrightarrow>
                process_new_episode cfg env sh st ep w1 =
                  (None, ep1,
                   w1\<lparr>calls := calls w1 @ [StreamHasEpisode st (number ep - remote_offset st)]\<rparr>)"
  proof (cases "stream_has_episode (db w) st ?n")
    case True
    with assms show ?thesis
      by (simp add: process_seen new_calls_def)
  next
    case False
    show ?thesis
    proof (cases r)
      case (Inl e)
      with assms False crp cw2 show ?thesis
        by (auto simp: process_new_episode_def Let_def new_calls_def log_call_def)
    next
      case (Inr u)
      show ?thesis
      proof (cases u)
        case None
        with Inr assms False crp cw2 show ?thesis
          by (auto simp: process_new_episode_def Let_def new_calls_def log_call_def)
      next
        case (Some url)
        have seen: "stream_has_episode (add_episode (db w) (stream_show st) ?n url) st ?n"
          by (rule stream_has_episode_add)
        from Some Inr assms False crp dbw2 seen show ?thesis
          by (simp add: process_new_episode_def [of cfg env sh st ep w] Let_def log_call_def
                process_seen stream_has_episode_set_show_delayed)
      qed
    qed
  qed
qed

theorem process_already_seen_is_noop_witness:
  "is_live example_episode \<and>
   list_ex is_add_episode (new_calls example_world example_announced) \<and>
   stream_has_episode (db example_announced) example_stream 5 \<and>
   process_new_episode example_config example_env example_show example_stream example_episode
     example_world = (None, example_episode\<lparr>number := 5\<rparr>, example_announced) \<and>
   process_new_episode example_config example_env example_show example_stream example_episode
     example_announced =
       (None, example_episode\<lparr>number := 5\<rparr>,
        example_announced\<lparr>calls := calls example_announced @ [StreamHasEpisode example_stream 5]\<rparr>)"
proof -
  have live: "is_live example_episode" by (simp add: example_episode_def)
  have n: "number example_episode - remote_offset example_stream = 5"
    by (simp add: example_episode_def example_stream_def)
  have added: "list_ex is_add_episode (new_calls example_world example_announced)"
    by (simp add: new_calls_def example_world_def example_announced_def)
  have seen: "stream_has_episode (db example_announced) example_stream 5"
    by (simp add: stream_has_episode_def example_announced_def example_stream_def)
  from process_already_seen_is_noop [OF live, where w = example_world and st = example_stream
      and cfg = example_config and env = example_env and sh = example_show]
  have "process_new_episode example_config example_env example_show example_stream example_episode
     example_announced =
       (None, example_episode\<lparr>number := 5\<rparr>,
        example_announced\<lparr>calls := calls example_announced @ [StreamHasEpisode example_stream 5]\<rparr>)"
    using added by (simp add: example_first_run n)
  with live added seen example_first_run show ?thesis by simp
qed

text \<open>
  C2. When the episode is live and not yet recorded and the publish step
  (\<^verbatim>\<open>_create_reddit_post\<close>) returns \<^verbatim>\<open>None\<close>, the processor returns normally and
  changes nothing that is persisted: the database is the one it started from, it called
  neither \<^verbatim>\<open>add_episode\<close> nor \<^verbatim>\<open>set_show_delayed\<close>, and \<^verbatim>\<open>stream_has_episode\<close> is
  still false for the canonical number.
\<close>

theorem process_publish_failure_no_mutation:
  assumes "is_live ep"
    and "\<not> stream_has_episode (db w) st (number ep - remote_offset st)"
    and "fst (create_reddit_post cfg env sh st (ep\<lparr>number := number ep - remote_offset st\<rparr>)
               (\<not> debug cfg) (log_call (StreamHasEpisode st (number ep - remote_offset st)) w)) = Inr None"
  shows "case process_new_episode cfg env sh st ep w of
           (err, ep1, w1) \<Rightarrow>
             err = None \<and> db w1 = db w \<and> \<not> list_ex is_db_write (new_calls w w1) \<and>
             \<not> stream_has_episode (db w1) st (number ep - remote_offset st)"
proof -
  let ?n = "number ep - remote_offset st"
  let ?ep1 = "ep\<lparr>number := ?n\<rparr>"
  let ?w0 = "log_call (StreamHasEpisode st ?n) w"
  obtain w2 where crp: "create_reddit_post cfg env sh st ?ep1 (\<not> debug cfg) ?w0 = (Inr None, w2)"
    using assms(3) by (cases "create_reddit_post cfg env sh st ?ep1 (\<not> debug cfg) ?w0") auto
  from create_reddit_post_frame [OF crp]
  have dbw2: "db w2 = db w"
    and cw2: "calls w2 = calls ?w0 \<or> (\<exists>t b. calls w2 = calls ?w0 @ [SubmitTextPost (subreddit cfg) t b])"
    by (auto simp: log_call_def)
  have pr: "process_new_episode cfg env sh st ep w = (None, ?ep1, w2)"
    using assms(1,2) crp by (simp add: process_new_episode_def Let_def)
  from cw2 have "\<not> list_ex is_db_write (new_calls w w2)"
    by (auto simp: new_calls_def log_call_def)
  with pr dbw2 assms(2) show ?thesis by simp
qed

theorem process_publish_failure_no_mutation_witness:
  "is_live example_episode \<and>
   \<not> stream_has_episode (db example_world) example_stream 5 \<and>
   fst (create_reddit_post example_closed example_env example_show example_stream
          (example_episode\<lparr>number := 5\<rparr>) (\<not> debug example_closed)
          (log_call (StreamHasEpisode example_stream 5) example_world)) = Inr None \<and>
   (case process_new_episode example_closed example_env example_show example_stream
           example_episode example_world of
      (err, ep1, w1) \<Rightarrow>
        err = None \<and> db w1 = db example_world \<and>
        \<not> list_ex is_db_write (new_calls example_world w1) \<and>
        \<not> stream_has_episode (db w1) example_stream 5)"
proof -
  have dbg: "\<not> debug example_closed" by (simp add: example_closed_def example_config_def)
  have post: "fst (create_reddit_post example_closed example_env example_show example_stream
          (example_episode\<lparr>number := number example_episode - remote_offset example_stream\<rparr>)
          (\<not> debug example_closed)
          (log_call (StreamHasEpisode example_stream
             (number example_episode - remote_offset example_stream)) example_world)) = Inr None"
    by (simp add: example_numbers dbg example_closed_post)
  from process_publish_failure_no_mutation [OF example_numbers(2) example_unseen post]
  show ?thesis
    using example_unseen post by (simp add: example_numbers)
qed

text \<open>
  C3. An episode that is not live leaves everything as it is: the processor returns
  normally with the same candidate and the same world, so no query of the database, no
  submission and no update was made.
\<close>

theorem process_not_live_no_effect:
  "\<not> is_live ep \<Longrightarrow> process_new_episode cfg env sh st ep w = (None, ep, w)"
  by (simp add: process_new_episode_def)

theorem process_not_live_no_effect_witness:
  "\<not> is_live (example_episode\<lparr>is_live := False\<rparr>) \<and>
   process_new_episode example_config example_env example_show example_stream
     (example_episode\<lparr>is_live := False\<rparr>) example_world =
       (None, example_episode\<lparr>is_live := False\<rparr>, example_world)"
  using process_not_live_no_effect [where ep = "example_episode\<lparr>is_live := False\<rparr>"
      and cfg = example_config and env = example_env and sh = example_show
      and st = example_stream and w = example_world]
  by simp

text \<open>
  C4. When the episode is live and not yet recorded and the publish step returns a post
  URL, the processor returns normally; the database differs from the one it started from
  by exactly one new episode record (the stream's show, the canonical number, the URL)
  and, when the show passed in is flagged delayed, by that flag being cleared for the
  show's id; \<^verbatim>\<open>add_episode\<close> is called once, and \<^verbatim>\<open>set_show_delayed\<close> is called
  exactly when the show is flagged delayed.
\<close>

theorem process_success_commits:
  assumes "is_live ep"
    and "\<not> stream_has_episode (db w) st (number ep - remote_offset st)"
    and "create_reddit_post cfg env sh st (ep\<lparr>number := number ep - remote_offset st\<rparr>)
           (\<not> debug cfg) (log_call (StreamHasEpisode st (number ep - remote_offset st)) w) =
             (Inr (Some url), w2)"
  shows "case process_new_episode cfg env sh st ep w of
           (err, ep1, w3) \<Rightarrow>
             err = None \<and>
             db w3 = (db w)
               \<lparr>db_shows :=
                  (if show_delayed sh
                   then map (\<lambda>s. if show_id s = show_id sh then s\<lparr>show_delayed := False\<rparr> else s)
                          (db_shows (db w))
                   else db_shows (db w)),
                db_episodes := db_episodes (db w) @
                  [\<lparr>record_show = stream_show st, record_number = number ep - remote_offset st,
                    record_link = url\<rparr>]\<rparr> \<and>
             calls w3 = calls w2 @ AddEpisode (stream_show st) (number ep - remote_offset st) url #
                          (if show_delayed sh then [SetShowDelayed sh False] else [])"
proof -
  from create_reddit_post_frame [OF assms(3)]
  have dbw2: "db w2 = db w" by (simp add: log_call_def)
  show ?thesis
    using assms dbw2
    by (simp add: process_new_episode_def Let_def log_call_def add_episode_def set_show_delayed_def)
qed

theorem process_success_commits_witness:
  "is_live example_episode \<and>
   \<not> stream_has_episode (db example_world) example_stream 5 \<and>
   show_delayed example_show \<and>
   process_new_episode example_config example_env example_show example_stream example_episode
     example_world = (None, example_episode\<lparr>number := 5\<rparr>, example_announced) \<and>
   db_episodes (db example_announced) =
     [\<lparr>record_show = 1, record_number = 5, record_link = ''http://redd.it/abc''\<rparr>] \<and>
   db_shows (db example_announced) = [example_show\<lparr>show_delayed := False\<rparr>]"
proof -
  have dbg: "\<not> debug example_config" by (simp add: example_config_def)
  have post: "create_reddit_post example_config example_env example_show example_stream
          (example_episode\<lparr>number := number example_episode - remote_offset example_stream\<rparr>)
          (\<not> debug example_config)
          (log_call (StreamHasEpisode example_stream
             (number example_episode - remote_offset example_stream)) example_world) =
       (Inr (Some ''http://redd.it/abc''),
        \<lparr>db = example_db,
         calls = [StreamHasEpisode example_stream 5,
                  SubmitTextPost ''anime'' ''Show - Episode 6: Pilot'' ''S: L'']\<rparr>)"
    by (simp add: example_numbers dbg example_open_post)
  have delayed: "show_delayed example_show" by (simp add: example_show_def)
  have eps: "db_episodes (db example_announced) =
     [\<lparr>record_show = 1, record_number = 5, record_link = ''http://redd.it/abc''\<rparr>]"
    and shs: "db_shows (db example_announced) = [example_show\<lparr>show_delayed := False\<rparr>]"
    by (simp_all add: example_announced_def)
  from process_success_commits [OF example_numbers(2) example_unseen post]
  have "process_new_episode example_config example_env example_show example_stream
          example_episode example_world = (None, example_episode\<lparr>number := 5\<rparr>, example_announced)"
    by (simp add: example_first_run)
  with example_unseen delayed eps shs show ?thesis
    by (simp add: example_numbers)
qed

text \<open>
  C5. For a live episode the first call of the processor is the query
  \<^verbatim>\<open>stream_has_episode\<close> with the raw number minus the stream's remote offset; every
  database call it makes and every episode record it adds carry that same number
  (integers are unbounded, the difference may be negative). The post composer renders the
  placeholder \<^verbatim>\<open>{episode}\<close> as the decimal text of the candidate's number plus the
  stream's display offset; so with the title template \<^verbatim>\<open>{episode}\<close> every title the
  processor submits is the text of raw number minus remote offset plus display offset.
  More generally, a template of brace-free text and plain placeholders without a block
  placeholder is rendered with \<^verbatim>\<open>episode\<close> bound to the candidate's number plus the
  display offset.
\<close>

theorem canonical_and_display_number:
  "(is_live ep \<longrightarrow>
      (case process_new_episode cfg env sh st ep w of
         (err, ep1, w1) \<Rightarrow>
           take 1 (new_calls w w1) = [StreamHasEpisode st (number ep - remote_offset st)] \<and>
           list_all (\<lambda>c. call_number c = None \<or> call_number c = Some (number ep - remote_offset st))
             (new_calls w w1) \<and>
           list_all (\<lambda>r. record_number r = number ep - remote_offset st)
             (drop (length (db_episodes (db w))) (db_episodes (db w1))) \<and>
           (post_title cfg = ''{episode}'' \<longrightarrow>
              list_all (\<lambda>c. call_title c = None \<or>
                             call_title c = Some (str_int (number ep - remote_offset st + display_offset st)))
                (new_calls w w1))))
   \<and> format_post_text env d ''{episode}'' formats sh cand st =
         Inr (str_int (number cand + display_offset st))
   \<and> (list_all simple_piece ps \<and> no_block_placeholder (concat (map piece_source ps)) \<longrightarrow>
        format_post_text env d (concat (map piece_source ps)) formats sh cand st =
          Inr (strip (concat (map (piece_output (post_values sh cand st)) ps))))"
proof (intro conjI impI)
  assume "list_all simple_piece ps \<and> no_block_placeholder (concat (map piece_source ps))"
  then show "format_post_text env d (concat (map piece_source ps)) formats sh cand st =
          Inr (strip (concat (map (piece_output (post_values sh cand st)) ps)))"
    by (simp add: format_post_text_plain)
next
  show "format_post_text env d ''{episode}'' formats sh cand st =
         Inr (str_int (number cand + display_offset st))"
    by (rule format_post_text_episode)
next
  assume live: "is_live ep"
  let ?n = "number ep - remote_offset st"
  let ?ep1 = "ep\<lparr>number := ?n\<rparr>"
  let ?w0 = "log_call (StreamHasEpisode st ?n) w"
  obtain r w2 where crp: "create_reddit_post cfg env sh st ?ep1 (\<not> debug cfg) ?w0 = (r, w2)"
    by (cases "create_reddit_post cfg env sh st ?ep1 (\<not> debug cfg) ?w0")
  from create_reddit_post_frame [OF crp]
  have dbw2: "db w2 = db w"
    and cw2: "calls w2 = calls ?w0 \<or>
      (\<exists>t b. calls w2 = calls ?w0 @ [SubmitTextPost (subreddit cfg) t b] \<and>
             create_post_contents cfg env (db w) sh st ?ep1 = Inr (t, b))"
    by (auto simp: log_call_def)
  have title: "\<And>t b. post_title cfg = ''{episode}'' \<Longrightarrow>
      create_post_contents cfg env (db w) sh st ?ep1 = Inr (t, b) \<Longrightarrow>
      t = str_int (?n + display_offset st)"
    by (auto simp: create_post_contents_def format_post_text_episode bind_err_def
             split: sum.splits)
  show "case process_new_episode cfg env sh st ep w of
         (err, ep1, w1) \<Rightarrow>
           take 1 (new_calls w w1) = [StreamHasEpisode st (number ep - remote_offset st)] \<and>
           list_all (\<lambda>c. call_number c = None \<or> call_number c = Some (number ep - remote_offset st))
             (new_calls w w1) \<and>
           list_all (\<lambda>r. record_number r = number ep - remote_offset st)
             (drop (length (db_episodes (db w))) (db_episodes (db w1))) \<and>
           (post_title cfg = ''{episode}'' \<longrightarrow>
              list_all (\<lambda>c. call_title c = None \<or>
                             call_title c = Some (str_int (number ep - remote_offset st + display_offset st)))
                (new_calls w w1))"
  proof (cases "stream_has_episode (db w) st ?n")
    case True
    with live show ?thesis by (simp add: process_seen new_calls_def)
  next
    case False
    with live crp cw2 dbw2 title show ?thesis
      by (cases r)
         (auto simp: process_new_episode_def Let_def new_calls_def log_call_def add_episode_def
                     set_show_delayed_def
              split: option.splits)
  qed
qed

theorem canonical_and_display_number_witness:
  "is_live example_episode \<and>
   post_title example_numbered = ''{episode}'' \<and>
   str_int (7 - 2 + 1) = ''6'' \<and>
   (case process_new_episode example_numbered example_env example_show example_stream
           example_episode example_world of
      (err, ep1, w1) \<Rightarrow>
        take 1 (new_calls example_world w1) = [StreamHasEpisode example_stream (7 - 2)] \<and>
        list_all (\<lambda>c. call_number c = None \<or> call_number c = Some (7 - 2))
          (new_calls example_world w1) \<and>
        list_all (\<lambda>r. record_number r = 7 - 2)
          (drop (length (db_episodes (db example_world))) (db_episodes (db w1))) \<and>
        list_all (\<lambda>c. call_title c = None \<or> call_title c = Some ''6'')
          (new_calls example_world w1)) \<and>
   format_post_text example_env example_db ''{episode}'' example_formats example_show
     (example_episode\<lparr>number := 5\<rparr>) example_stream = Inr ''6'' \<and>
   list_all simple_piece
     [Placeholder ''show_name'', Text '' - Episode '', Placeholder ''episode'',
      Placeholder ''episode_name''] \<and>
   no_block_placeholder ''{show_name} - Episode {episode}{episode_name}'' \<and>
   format_post_text example_env example_db ''{show_name} - Episode {episode}{episode_name}''
     example_formats example_show (example_episode\<lparr>number := 5\<rparr>) example_stream =
       Inr ''Show - Episode 6: Pilot''"
proof -
  have sp: "list_all simple_piece
     [Placeholder ''show_name'', Text '' - Episode '', Placeholder ''episode'',
      Placeholder ''episode_name'']"
    by (simp add: simple_name_def plain_char_def is_digit_def not_brace_def)
  have nb: "no_block_placeholder ''{show_name} - Episode {episode}{episode_name}''"
    by (simp add: no_block_placeholder_def)
  have out: "strip (concat (map (piece_output (post_values example_show
               (example_episode\<lparr>number := 5\<rparr>) example_stream))
               [Placeholder ''show_name'', Text '' - Episode '', Placeholder ''episode'',
                Placeholder ''episode_name''])) = ''Show - Episode 6: Pilot''"
    by code_simp
  have t: "post_title example_numbered = ''{episode}''"
    by (simp add: example_numbered_def example_config_def)
  have six: "str_int 6 = ''6''"
    by (simp add: str_int_def nat_digits.simps digit_char_def)
  have off: "display_offset example_stream = 1" by (simp add: example_stream_def)
  from canonical_and_display_number [where ep = example_episode and cfg = example_numbered
      and env = example_env and sh = example_show and st = example_stream
      and w = example_world and d = example_db and formats = example_formats
      and cand = "example_episode\<lparr>number := 5\<rparr>"
      and ps = "[Placeholder ''show_name'', Text '' - Episode '', Placeholder ''episode'',
                 Placeholder ''episode_name'']"]
  show ?thesis
    using t six sp nb out by (simp add: example_numbers off)
qed

text \<open>
  C6. The code returns the empty string, not \<^verbatim>\<open>*None*\<close>, for a show that has streams of
  which none qualifies: the test \<^verbatim>\<open>len(streams) > 0\<close> is made on the unfiltered list. The
  example show with its only stream inactive has no qualifying stream and gets the empty
  string; with no stream at all it gets \<^verbatim>\<open>*None*\<close>, and with its stream active the line
  \<^verbatim>\<open>S: L\<close>.
\<close>

theorem gen_text_streams_unqualified_empty:
  "get_streams_of_show example_inactive_db example_show = [example_stream\<lparr>active := False\<rparr>] \<and>
   gen_text_streams example_env example_inactive_db example_formats example_show = Inr [] \<and>
   gen_text_streams example_env (example_db\<lparr>db_streams := []\<rparr>) example_formats example_show =
     Inr ''*None*'' \<and>
   gen_text_streams example_env example_db example_formats example_show = Inr ''S: L''"
  by code_simp

text \<open>
  C7 (as amended). For a template made of brace-free text and plain placeholders and a
  mapping that does not bind the name \<^verbatim>\<open>s\<close>, \<^verbatim>\<open>safe_format\<close> returns the text with every
  placeholder whose name is in the mapping replaced by \<^verbatim>\<open>str\<close> of its value and every
  other placeholder left as written, and a value supplied under a name other than \<^verbatim>\<open>s\<close>
  that is no placeholder of the template does not change the result. A mapping that binds
  \<^verbatim>\<open>s\<close> makes the call raise \<^verbatim>\<open>TypeError\<close>, whatever the template.
\<close>

theorem safe_format_plain_template:
  assumes "list_all simple_piece ps" and "kwargs ''s'' = None"
  shows "safe_format ext (concat (map piece_source ps)) kwargs =
           Inr (concat (map (piece_output kwargs) ps))
       \<and> (\<forall>k v. Placeholder k \<notin> set ps \<and> k \<noteq> ''s'' \<longrightarrow>
            safe_format ext (concat (map piece_source ps)) (kwargs(k \<mapsto> v)) =
              safe_format ext (concat (map piece_source ps)) kwargs)
       \<and> (\<forall>template v. safe_format ext template (kwargs(''s'' \<mapsto> v)) = Inl TypeError)"
  using assms
  by (auto simp: safe_format_def build_string_pieces piece_output_unused)

text \<open>
  \<^verbatim>\<open>safe_format("{a} and {b}", a="x")\<close> is \<^verbatim>\<open>"x and {b}"\<close>, also when \<^verbatim>\<open>c="y"\<close> is
  supplied; with \<^verbatim>\<open>s="y"\<close> supplied the call raises.
\<close>

theorem safe_format_plain_template_witness:
  "list_all simple_piece [Placeholder ''a'', Text '' and '', Placeholder ''b''] \<and>
   [''a'' \<mapsto> PStr ''x''] ''s'' = None \<and>
   safe_format (format_field example_env) ''{a} and {b}'' [''a'' \<mapsto> PStr ''x''] = Inr ''x and {b}'' \<and>
   safe_format (format_field example_env) ''{a} and {b}'' [''a'' \<mapsto> PStr ''x'', ''c'' \<mapsto> PStr ''y''] =
     Inr ''x and {b}'' \<and>
   safe_format (format_field example_env) ''{a} and {b}'' [''a'' \<mapsto> PStr ''x'', ''s'' \<mapsto> PStr ''y''] =
     Inl TypeError"
proof -
  have sp: "list_all simple_piece [Placeholder ''a'', Text '' and '', Placeholder ''b'']"
    by (simp add: simple_name_def plain_char_def is_digit_def not_brace_def)
  have ns: "[''a'' \<mapsto> PStr ''x''] ''s'' = None" by simp
  from safe_format_plain_template [where ps = "[Placeholder ''a'', Text '' and '', Placeholder ''b'']"
      and kwargs = "[''a'' \<mapsto> PStr ''x'']" and ext = "format_field example_env"] sp ns
  have "safe_format (format_field example_env) ''{a} and {b}'' [''a'' \<mapsto> PStr ''x''] =
          Inr ''x and {b}''"
    and "safe_format (format_field example_env) ''{a} and {b}''
           [''a'' \<mapsto> PStr ''x'', ''c'' \<mapsto> PStr ''y''] =
         safe_format (format_field example_env) ''{a} and {b}'' [''a'' \<mapsto> PStr ''x'']"
    and "safe_format (format_field example_env) ''{a} and {b}''
           [''a'' \<mapsto> PStr ''x'', ''s'' \<mapsto> PStr ''y''] = Inl TypeError"
    by (simp_all add: py_str_def)
  with sp ns show ?thesis by simp
qed

text \<open>
  The claim as stated fails. The placeholder \<^verbatim>\<open>{0}\<close> names nothing in the mapping, and
  \<^verbatim>\<open>safe_format("{0}")\<close> raises \<^verbatim>\<open>ValueError\<close> (\<^verbatim>\<open>format_map\<close> refuses positional
  fields) instead of returning \<^verbatim>\<open>"{0}"\<close>. The placeholder \<^verbatim>\<open>{b:}\<close>, with an empty
  format spec, names \<^verbatim>\<open>b\<close>, which is not in the mapping, and is rendered as \<^verbatim>\<open>{b}\<close>, not
  as it is written. The value \<^verbatim>\<open>s="x"\<close> has no placeholder in the template \<^verbatim>\<open>{a}\<close> and
  is not ignored: the call raises \<^verbatim>\<open>TypeError\<close>.
\<close>

theorem safe_format_not_verbatim:
  "safe_format (format_field example_env) ''{0}'' Map.empty = Inl ValueError \<and>
   safe_format (format_field example_env) ''{b:}'' Map.empty = Inr ''{b}'' \<and>
   safe_format (format_field example_env) ''{a}'' [''s'' \<mapsto> PStr ''x''] = Inl TypeError"
  by (simp add: safe_format_def build_string.simps markup_next_def not_brace_def parse_field_def
        output_markup_def arg_name_def accessors_def not_accessor_def is_positional_def is_digit_def
        safe_dict_def py_str_def)

text \<open>
  C8 (as amended). An outcome that is reported as a value does not end the run. Step by
  step: a stream whose show is missing or disabled is passed over; when the handler
  finds no episode the loop goes on with the next stream; when it returns an episode and
  the processor returns normally the loop goes on with the next stream, and the processor
  returns normally when the episode is not live, is already recorded, or the publish step
  answers (with a URL or with \<^verbatim>\<open>None\<close>); a service whose streams are done is followed
  by the next service. For the whole run: when \<^verbatim>\<open>init_reddit\<close>, the handlers, the
  rendering of the templates and the submission never raise, \<^verbatim>\<open>main\<close> returns normally,
  every stream of every enabled service whose show exists and is enabled has been asked
  for its latest episode, and for every show of the generic pass every generic handler
  has been asked, or one that was asked returned an episode; the same has been done
  whenever \<^verbatim>\<open>main\<close> returns normally. An exception is not caught: raised by the handler
  for a stream that is checked, it ends the loop over the streams, the loop over the
  services and \<^verbatim>\<open>main\<close>.
\<close>

theorem main_checks_all_without_exception:
  "(main cfg env w = (None, w') \<longrightarrow>
      (\<forall>sv\<in>set (get_services_enabled (db w)).
         \<forall>st\<in>set (get_streams_of_service (db w) sv).
           checkable (db w) st \<longrightarrow> GetLatestEpisode sv st \<in> set (calls w')) \<and>
      (\<exists>w1. check_services cfg env (get_services_enabled (db w)) (log_call InitReddit w) =
               (None, w1) \<and>
             (\<forall>sh\<in>set (other_shows env (db w1)).
                generic_probed cfg env (from_show sh) (get_services_enabled (db w)) (calls w'))))
   \<and> (init_reddit env cfg = None \<and>
      (\<forall>sv st e. probe cfg env st sv \<noteq> Inl e) \<and>
      (\<forall>d sh st ep e. create_post_contents cfg env d sh st ep \<noteq> Inl e) \<and>
      (\<forall>su t b e. submit_text_post env su t b \<noteq> Inl e) \<longrightarrow>
        (\<exists>u'. main cfg env u = (None, u') \<and>
           (\<forall>sv\<in>set (get_services_enabled (db u)).
              \<forall>st\<in>set (get_streams_of_service (db u) sv).
                checkable (db u) st \<longrightarrow> GetLatestEpisode sv st \<in> set (calls u')) \<and>
           (\<exists>u1. check_services cfg env (get_services_enabled (db u)) (log_call InitReddit u) =
                    (None, u1) \<and>
                  (\<forall>sh\<in>set (other_shows env (db u1)).
                     generic_probed cfg env (from_show sh) (get_services_enabled (db u))
                       (calls u')))))
   \<and> (\<not> checkable (db v) st \<longrightarrow>
        check_streams cfg env sv (st # rest) v = check_streams cfg env sv rest v)
   \<and> (checkable (db v) st \<and> probe cfg env st sv = Inr None \<longrightarrow>
        check_streams cfg env sv (st # rest) v =
          check_streams cfg env sv rest (log_call (GetLatestEpisode sv st) v))
   \<and> (get_show (db v) st = Some sh \<and> show_enabled sh \<and> probe cfg env st sv = Inr (Some ep) \<and>
      fst (process_new_episode cfg env sh st ep (log_call (GetLatestEpisode sv st) v)) = None \<longrightarrow>
        check_streams cfg env sv (st # rest) v =
          check_streams cfg env sv rest
            (snd (snd (process_new_episode cfg env sh st ep (log_call (GetLatestEpisode sv st) v)))))
   \<and> (\<not> is_live ep \<or> stream_has_episode (db x) st (number ep - remote_offset st) \<or>
      fst (create_reddit_post cfg env sh st (ep\<lparr>number := number ep - remote_offset st\<rparr>)
             (\<not> debug cfg) (log_call (StreamHasEpisode st (number ep - remote_offset st)) x)) = Inr r \<longrightarrow>
        fst (process_new_episode cfg env sh st ep x) = None)
   \<and> (check_streams cfg env sv (get_streams_of_service (db v) sv) v = (None, v1) \<longrightarrow>
        check_services cfg env (sv # svs) v = check_services cfg env svs v1)
   \<and> (checkable (db v) st \<and> probe cfg env st sv = Inl e \<longrightarrow>
        check_streams cfg env sv (st # rest) v = (Some e, log_call (GetLatestEpisode sv st) v))
   \<and> (check_streams cfg env sv (get_streams_of_service (db v) sv) v = (Some e, v1) \<longrightarrow>
        check_services cfg env (sv # svs) v = (Some e, v1))
   \<and> (init_reddit env cfg = None \<and>
      check_services cfg env (get_services_enabled (db v)) (log_call InitReddit v) = (Some e, v1) \<longrightarrow>
        main cfg env v = (Some e, v1))"
  by (intro conjI)
     (rule main_covers main_no_raise check_streams_skipped check_streams_not_found
        check_streams_processed process_value_outcomes check_services_next check_streams_raises
        check_services_raises main_raises)+

text \<open>
  A run of the example in which the handler finds nothing for the first stream and the
  subreddit accepts no post for the episode of the second stream: nothing raises,
  \<^verbatim>\<open>main\<close> returns normally and the second stream has been asked. In the other example
  world the handler raises for the first stream and the loop ends there.
\<close>

theorem main_checks_all_without_exception_witness:
  "init_reddit example_calm_env example_plain = None \<and>
   (\<forall>sv st e. probe example_plain example_calm_env st sv \<noteq> Inl e) \<and>
   (\<forall>d sh st ep e. create_post_contents example_plain example_calm_env d sh st ep \<noteq> Inl e) \<and>
   (\<forall>su t b e. submit_text_post example_calm_env su t b \<noteq> Inl e) \<and>
   fst (main example_plain example_calm_env example_busy_world) = None \<and>
   list_ex is_submit (calls (snd (main example_plain example_calm_env example_busy_world))) \<and>
   \<not> list_ex is_db_write (calls (snd (main example_plain example_calm_env example_busy_world))) \<and>
   example_service \<in> set (get_services_enabled (db example_busy_world)) \<and>
   example_stream \<in> set (get_streams_of_service (db example_busy_world) example_service) \<and>
   checkable (db example_busy_world) example_stream \<and>
   GetLatestEpisode example_service example_stream \<in>
     set (calls (snd (main example_plain example_calm_env example_busy_world))) \<and>
   checkable (db example_busy_world) (example_stream\<lparr>show_key := ''none''\<rparr>) \<and>
   probe example_plain example_calm_env (example_stream\<lparr>show_key := ''none''\<rparr>) example_service =
     Inr None \<and>
   check_streams example_plain example_calm_env example_service
     [example_stream\<lparr>show_key := ''none''\<rparr>, example_stream] example_busy_world =
       check_streams example_plain example_calm_env example_service [example_stream]
         (log_call (GetLatestEpisode example_service (example_stream\<lparr>show_key := ''none''\<rparr>))
            example_busy_world) \<and>
   checkable (db example_down_world) (example_stream\<lparr>show_key := ''down''\<rparr>) \<and>
   probe example_config example_env (example_stream\<lparr>show_key := ''down''\<rparr>) example_service =
     Inl (Raised ''timeout'') \<and>
   check_streams example_config example_env example_service
     [example_stream\<lparr>show_key := ''down''\<rparr>, example_stream] example_down_world =
       (Some (Raised ''timeout''),
        log_call (GetLatestEpisode example_service (example_stream\<lparr>show_key := ''down''\<rparr>))
          example_down_world)"
proof -
  have i: "init_reddit example_calm_env example_plain = None"
    by (simp add: example_calm_env_def example_env_def)
  note p = example_calm_handlers and c = example_plain_composes and s = example_calm_submit
  have sub: "list_ex is_submit (calls (snd (main example_plain example_calm_env example_busy_world)))"
    and nowrite:
      "\<not> list_ex is_db_write (calls (snd (main example_plain example_calm_env example_busy_world)))"
    by code_simp+
  have sv: "example_service \<in> set (get_services_enabled (db example_busy_world))"
    and st: "example_stream \<in> set (get_streams_of_service (db example_busy_world) example_service)"
    and ch: "checkable (db example_busy_world) example_stream"
    by code_simp+
  have quiet: "checkable (db example_busy_world) (example_stream\<lparr>show_key := ''none''\<rparr>)"
    and silent: "probe example_plain example_calm_env (example_stream\<lparr>show_key := ''none''\<rparr>)
                    example_service = Inr None"
    by code_simp+
  have down: "checkable (db example_down_world) (example_stream\<lparr>show_key := ''down''\<rparr>)"
    and raised: "probe example_config example_env (example_stream\<lparr>show_key := ''down''\<rparr>)
                   example_service = Inl (Raised ''timeout'')"
    by code_simp+
  from main_checks_all_without_exception [where cfg = example_plain and env = example_calm_env
      and u = example_busy_world, THEN conjunct2, THEN conjunct1] i p c s
  obtain u' where run: "main example_plain example_calm_env example_busy_world = (None, u')"
    and cov: "\<forall>sv\<in>set (get_services_enabled (db example_busy_world)).
                \<forall>st\<in>set (get_streams_of_service (db example_busy_world) sv).
                  checkable (db example_busy_world) st \<longrightarrow>
                    GetLatestEpisode sv st \<in> set (calls u')"
    by blast
  from run have ok: "fst (main example_plain example_calm_env example_busy_world) = None"
    and u': "u' = snd (main example_plain example_calm_env example_busy_world)"
    by simp_all
  from cov sv st ch have asked: "GetLatestEpisode example_service example_stream \<in>
     set (calls (snd (main example_plain example_calm_env example_busy_world)))"
    unfolding u' by blast
  note step = main_checks_all_without_exception [where cfg = example_plain
      and env = example_calm_env and v = example_busy_world
      and st = "example_stream\<lparr>show_key := ''none''\<rparr>"
      and sv = example_service and rest = "[example_stream]",
      THEN conjunct2, THEN conjunct2, THEN conjunct2, THEN conjunct1]
  have went_on: "check_streams example_plain example_calm_env example_service
     [example_stream\<lparr>show_key := ''none''\<rparr>, example_stream] example_busy_world =
       check_streams example_plain example_calm_env example_service [example_stream]
         (log_call (GetLatestEpisode example_service (example_stream\<lparr>show_key := ''none''\<rparr>))
            example_busy_world)"
    by (rule mp [OF step conjI [OF quiet silent]])
  note abort = main_checks_all_without_exception [where cfg = example_config
      and env = example_env and v = example_down_world
      and st = "example_stream\<lparr>show_key := ''down''\<rparr>"
      and sv = example_service and e = "Raised ''timeout''" and rest = "[example_stream]",
      THEN conjunct2, THEN conjunct2, THEN conjunct2, THEN conjunct2, THEN conjunct2,
      THEN conjunct2, THEN conjunct2, THEN conjunct1]
  have stopped: "check_streams example_config example_env example_service
     [example_stream\<lparr>show_key := ''down''\<rparr>, example_stream] example_down_world =
       (Some (Raised ''timeout''),
        log_call (GetLatestEpisode example_service (example_stream\<lparr>show_key := ''down''\<rparr>))
          example_down_world)"
    by (rule mp [OF abort conjI [OF down raised]])
  from i p c s ok sub nowrite sv st ch asked quiet silent went_on down raised stopped
  show ?thesis by (intro conjI)
qed

text \<open>
  The claim as stated fails: \<^verbatim>\<open>main\<close> catches no exception. When the handler raises for
  the first of two streams, the exception leaves \<^verbatim>\<open>main\<close> and the second stream, whose
  show is enabled, is never asked.
\<close>

theorem main_aborts_on_exception:
  "example_service \<in> set (get_services_enabled (db example_down_world)) \<and>
   example_stream \<in> set (get_streams_of_service (db example_down_world) example_service) \<and>
   checkable (db example_down_world) example_stream \<and>
   fst (main example_config example_env example_down_world) = Some (Raised ''timeout'') \<and>
   GetLatestEpisode example_service example_stream \<notin>
     set (calls (snd (main example_config example_env example_down_world)))"
  by code_simp

text \<open>
  C9. The generic pass for one show runs on the stream synthesized from the show, whose
  offsets are 0. Of the services it is given, it asks only those with a generic handler,
  in order: when the handlers asked first find nothing and the next one returns an
  episode, that episode is processed and no later handler is asked; when none finds
  anything, all generic handlers have been asked and nothing else happens. \<^verbatim>\<open>main\<close>
  runs this pass after the dedicated pass, with the enabled services in their order, for
  the shows that have no stream or are flagged delayed.
\<close>

theorem generic_pass_first_match:
  "(\<forall>misses sv later ep.
      generic_services env svs = misses @ sv # later \<and>
      list_all (\<lambda>m. probe cfg env (from_show sh) m = Inr None) misses \<and>
      probe cfg env (from_show sh) sv = Inr (Some ep) \<longrightarrow>
      check_generic cfg env sh (from_show sh) svs w =
        (case process_new_episode cfg env sh (from_show sh) ep
                (log_probes (from_show sh) (misses @ [sv]) w) of
           (err, ep1, w2) \<Rightarrow> (err, w2)))
   \<and> (list_all (\<lambda>m. probe cfg env (from_show sh) m = Inr None) (generic_services env svs) \<longrightarrow>
        check_generic cfg env sh (from_show sh) svs w =
          (None, log_probes (from_show sh) (generic_services env svs) w))
   \<and> remote_offset (from_show sh) = 0 \<and> display_offset (from_show sh) = 0
   \<and> check_shows cfg env svs (sh # shs) w =
        (case check_generic cfg env sh (from_show sh) svs w of
           (Some e, w1) \<Rightarrow> (Some e, w1)
         | (None, w1) \<Rightarrow> check_shows cfg env svs shs w1)
   \<and> (init_reddit env cfg = None \<and>
      check_services cfg env (get_services_enabled (db w0)) (log_call InitReddit w0) = (None, w1) \<longrightarrow>
        main cfg env w0 =
          check_shows cfg env (get_services_enabled (db w0)) (other_shows env (db w1)) w1)
   \<and> (set (set_iteration env (get_shows_missing_stream d @ get_shows_delayed d)) =
        set (get_shows_missing_stream d @ get_shows_delayed d) \<longrightarrow>
      set (other_shows env d) =
        {s \<in> set (db_shows d).
           list_all (\<lambda>st. stream_show st \<noteq> show_id s) (db_streams d) \<or> show_delayed s})"
proof -
  have a: "remote_offset (from_show sh) = 0 \<and> display_offset (from_show sh) = 0"
    by (simp add: from_show_def)
  show ?thesis
    using a
    by (auto simp: check_generic_found check_generic_none main_generic_pass other_shows_set
             simp del: set_append)
qed

theorem generic_pass_first_match_witness:
  "generic_services example_env
     [example_service, example_generic 2, example_generic 3, example_generic 4] =
       [example_generic 2] @ example_generic 3 # [example_generic 4] \<and>
   list_all (\<lambda>m. probe example_config example_env (from_show example_show) m = Inr None)
     [example_generic 2] \<and>
   probe example_config example_env (from_show example_show) (example_generic 3) =
     Inr (Some example_episode) \<and>
   fst (check_generic example_config example_env example_show (from_show example_show)
          [example_service, example_generic 2, example_generic 3, example_generic 4]
          example_world) = None \<and>
   calls (snd (check_generic example_config example_env example_show (from_show example_show)
          [example_service, example_generic 2, example_generic 3, example_generic 4]
          example_world)) =
     [GetLatestEpisode (example_generic 2) (from_show example_show),
      GetLatestEpisode (example_generic 3) (from_show example_show),
      StreamHasEpisode (from_show example_show) 7,
      SubmitTextPost ''anime'' ''Show - Episode 7: Pilot'' ''S: L'',
      AddEpisode 1 7 ''http://redd.it/abc'',
      SetShowDelayed example_show False]"
proof -
  have g: "generic_services example_env
     [example_service, example_generic 2, example_generic 3, example_generic 4] =
       [example_generic 2] @ example_generic 3 # [example_generic 4]"
    by code_simp
  have m: "list_all (\<lambda>m. probe example_config example_env (from_show example_show) m = Inr None)
     [example_generic 2]"
    by code_simp
  have f: "probe example_config example_env (from_show example_show) (example_generic 3) =
     Inr (Some example_episode)"
    by code_simp
  have r1: "fst (case process_new_episode example_config example_env example_show
                  (from_show example_show) example_episode
                  (log_probes (from_show example_show) ([example_generic 2] @ [example_generic 3])
                     example_world) of
               (err, ep1, w2) \<Rightarrow> (err, w2)) = None"
    by code_simp
  have r2: "calls (snd (case process_new_episode example_config example_env example_show
                  (from_show example_show) example_episode
                  (log_probes (from_show example_show) ([example_generic 2] @ [example_generic 3])
                     example_world) of
               (err, ep1, w2) \<Rightarrow> (err, w2))) =
     [GetLatestEpisode (example_generic 2) (from_show example_show),
      GetLatestEpisode (example_generic 3) (from_show example_show),
      StreamHasEpisode (from_show example_show) 7,
      SubmitTextPost ''anime'' ''Show - Episode 7: Pilot'' ''S: L'',
      AddEpisode 1 7 ''http://redd.it/abc'',
      SetShowDelayed example_show False]"
    by code_simp
  from generic_pass_first_match [where env = example_env and cfg = example_config
      and sh = example_show and w = example_world
      and svs = "[example_service, example_generic 2, example_generic 3, example_generic 4]"]
    g m f
  have "check_generic example_config example_env example_show (from_show example_show)
          [example_service, example_generic 2, example_generic 3, example_generic 4]
          example_world =
        (case process_new_episode example_config example_env example_show
                  (from_show example_show) example_episode
                  (log_probes (from_show example_show) ([example_generic 2] @ [example_generic 3])
                     example_world) of
               (err, ep1, w2) \<Rightarrow> (err, w2))"
    by blast
  with g m f r1 r2 show ?thesis by simp
qed

text \<open>
  C10. For a live episode the processor overwrites the candidate's number with the
  canonical number before anything else: whatever the outcome, the candidate it leaves
  behind carries the canonical number and no longer the raw one, the first call is the
  query with that number, and every later call was made with the overwritten candidate
  (the submitted title and body are composed from it, the persisted record carries its
  number).
\<close>

theorem process_overwrites_number:
  assumes "is_live ep"
  shows "case process_new_episode cfg env sh st ep w of
           (err, ep1, w1) \<Rightarrow>
             ep1 = ep\<lparr>number := number ep - remote_offset st\<rparr> \<and>
             take 1 (new_calls w w1) = [StreamHasEpisode st (number ep - remote_offset st)] \<and>
             list_all (sees_canonical cfg env (db w) sh st ep1) (new_calls w w1)"
proof -
  let ?n = "number ep - remote_offset st"
  let ?ep1 = "ep\<lparr>number := ?n\<rparr>"
  let ?w0 = "log_call (StreamHasEpisode st ?n) w"
  obtain r w2 where crp: "create_reddit_post cfg env sh st ?ep1 (\<not> debug cfg) ?w0 = (r, w2)"
    by (cases "create_reddit_post cfg env sh st ?ep1 (\<not> debug cfg) ?w0")
  from create_reddit_post_frame [OF crp]
  have cw2: "calls w2 = calls ?w0 \<or>
      (\<exists>t b. calls w2 = calls ?w0 @ [SubmitTextPost (subreddit cfg) t b] \<and>
             create_post_contents cfg env (db w) sh st ?ep1 = Inr (t, b))"
    by (auto simp: log_call_def)
  show ?thesis
  proof (cases "stream_has_episode (db w) st ?n")
    case True
    with assms show ?thesis by (simp add: process_seen new_calls_def)
  next
    case False
    with assms crp cw2 show ?thesis
      by (cases r)
         (auto simp: process_new_episode_def Let_def new_calls_def log_call_def
              split: option.splits)
  qed
qed

theorem process_overwrites_number_witness:
  "is_live example_episode \<and>
   (case process_new_episode example_config example_env example_show example_stream
           example_episode example_world of
      (err, ep1, w1) \<Rightarrow>
        ep1 = example_episode\<lparr>number := 5\<rparr> \<and> number ep1 \<noteq> number example_episode \<and>
        take 1 (new_calls example_world w1) = [StreamHasEpisode example_stream 5] \<and>
        list_all (sees_canonical example_config example_env (db example_world) example_show
                    example_stream ep1) (new_calls example_world w1))"
proof -
  have raw: "number example_episode = 7" and off: "remote_offset example_stream = 2"
    by (simp_all add: example_episode_def example_stream_def)
  from process_overwrites_number [OF example_numbers(2), where cfg = example_config
      and env = example_env and sh = example_show and st = example_stream
      and w = example_world]
  show ?thesis
    using raw off example_numbers(2) by (simp split: prod.splits)
qed

end
